theory Spec2Isabelle
  imports Complex_Main "HOL-Library.AList"
begin

section \<open>The voting bot of \<^verbatim>\<open>bot.py\<close> as state-passing functions\<close>

text \<open>
  The module reads its settings once at start-up. They are constants of a run, so every
  function of the model takes them as a record. \<^verbatim>\<open>VOTE_INTERVAL\<close>, \<^verbatim>\<open>BUFFERLENGTH\<close> and
  \<^verbatim>\<open>ACTIVE_DECAY\<close> come out of \<^verbatim>\<open>int(...)\<close> and may be any integer; \<^verbatim>\<open>MAJORITY_RATIO\<close>
  comes out of \<^verbatim>\<open>float(...)\<close> and is a Python float, modelled below with the rounding of
  its multiplication. The readings of \<^verbatim>\<open>time.time()\<close> are modelled as real numbers; the code
  only compares and subtracts them.
\<close>

subsection \<open>Python floats\<close>

text \<open>
  A Python float is an IEEE 754 double: not-a-number, an infinity, or a finite value
  \<open>m * 2^e\<close> with \<open>\<bar>m\<bar> < 2^53\<close> and \<open>-1074 \<le> e \<le> 971\<close>, written \<open>Finite m e\<close> here (a value has
  several such pairs; the sign of a zero is not kept, since \<^verbatim>\<open>int()\<close> does not see it).
  \<open>round_mag M E\<close> rounds the exact magnitude \<open>M * 2^E\<close> to the nearest double, a tie to
  the even mantissa: it drops the bits beyond 53 significant ones, or beyond the smallest
  exponent \<open>-1074\<close>. A rounded magnitude of \<open>2^1024\<close> or more is an infinity.
  \<open>bit_length\<close> is \<^verbatim>\<open>int.bit_length()\<close>.
\<close>

datatype py_error = OverflowError | ValueError

datatype pyfloat = Finite int int | Infinity | NegInfinity | NaN

function bit_length :: "int \<Rightarrow> nat" where
  "bit_length n = (if n \<le> 0 then 0 else Suc (bit_length (n div 2)))"
  by pat_completeness auto
termination
  by (relation "measure nat") auto

declare bit_length.simps [simp del]

definition round_mag :: "int \<Rightarrow> int \<Rightarrow> int \<times> int" where
  "round_mag M E =
     (let k = max (int (bit_length M) - 53) (- 1074 - E)
      in if k \<le> 0 then (M, E)
         else let d = 2 ^ nat k; q = M div d; r = M mod d
              in (if d < 2 * r \<or> (2 * r = d \<and> odd q) then q + 1 else q, E + k))"

definition make_float :: "bool \<Rightarrow> int \<Rightarrow> int \<Rightarrow> pyfloat" where
  "make_float neg M E =
     (let (q, e) = round_mag M E
      in if 0 \<le> e \<and> 2 ^ 1024 \<le> q * 2 ^ nat e then (if neg then NegInfinity else Infinity)
         else Finite (if neg then - q else q) e)"

text \<open>The product of two floats.\<close>

definition float_mul :: "pyfloat \<Rightarrow> pyfloat \<Rightarrow> pyfloat" where
  "float_mul x y =
     (case (x, y) of
        (Finite m1 e1, Finite m2 e2) \<Rightarrow> make_float (m1 * m2 < 0) \<bar>m1 * m2\<bar> (e1 + e2)
      | (Finite m e, Infinity) \<Rightarrow> (if m = 0 then NaN else if 0 < m then Infinity else NegInfinity)
      | (Finite m e, NegInfinity) \<Rightarrow> (if m = 0 then NaN else if 0 < m then NegInfinity else Infinity)
      | (Infinity, Finite m e) \<Rightarrow> (if m = 0 then NaN else if 0 < m then Infinity else NegInfinity)
      | (NegInfinity, Finite m e) \<Rightarrow> (if m = 0 then NaN else if 0 < m then NegInfinity else Infinity)
      | (Infinity, Infinity) \<Rightarrow> Infinity
      | (NegInfinity, NegInfinity) \<Rightarrow> Infinity
      | (Infinity, NegInfinity) \<Rightarrow> NegInfinity
      | (NegInfinity, Infinity) \<Rightarrow> NegInfinity
      | _ \<Rightarrow> NaN)"

text \<open>The conversion of the integer operand of \<^verbatim>\<open>int * float\<close>; Python raises
  \<^verbatim>\<open>OverflowError\<close> when the integer is too large for a float.\<close>

definition float_of_nat :: "nat \<Rightarrow> py_error + pyfloat" where
  "float_of_nat n =
     (case make_float False (int n) 0 of Finite m e \<Rightarrow> Inr (Finite m e) | _ \<Rightarrow> Inl OverflowError)"

text \<open>\<^verbatim>\<open>int(x)\<close> truncates towards zero and raises on an infinity or a not-a-number.\<close>

definition int_of_float :: "pyfloat \<Rightarrow> py_error + int" where
  "int_of_float x =
     (case x of
        Finite m e \<Rightarrow>
          Inr (if 0 \<le> e then m * 2 ^ nat e
               else if 0 \<le> m then m div 2 ^ nat (- e)
               else - ((- m) div 2 ^ nat (- e)))
      | NaN \<Rightarrow> Inl ValueError
      | _ \<Rightarrow> Inl OverflowError)"

text \<open>The real number that \<open>Finite m e\<close> stands for.\<close>

definition float_val :: "int \<Rightarrow> int \<Rightarrow> real" where
  "float_val m e = (if 0 \<le> e then of_int m * 2 ^ nat e else of_int m / 2 ^ nat (- e))"

subsection \<open>Settings and state\<close>

record config =
  BOT_NICK :: string
  GAME_DIR :: string
  VOTE_INTERVAL :: int
  BUFFERLENGTH :: int
  ACTIVE_DECAY :: int
  MAJORITY_RATIO :: pyfloat

text \<open>
  The attributes of \<^verbatim>\<open>InformBot\<close>. A Python \<^verbatim>\<open>dict\<close> keeps its keys in the order of their
  first insertion, and \<^verbatim>\<open>Counter.most_common\<close> depends on that order, so every dictionary is
  an association list: \<open>AList.update\<close> overwrites a key in place and appends a new one at
  the end, \<open>AList.delete\<close> is \<^verbatim>\<open>del d[k]\<close>, \<open>[]\<close> is \<^verbatim>\<open>d.clear()\<close>. The running game
  (\<^verbatim>\<open>self.game\<close>, an \<^verbatim>\<open>InformGame\<close> or \<^verbatim>\<open>None\<close>) is the path it was started with. The roster
  \<^verbatim>\<open>users_in_channel\<close> and the attribute \<^verbatim>\<open>required_votes\<close> are written but never read by
  the voting code and are left out.
\<close>

record bot =
  game :: "string option"
  gamename :: string
  voter_choices :: "(string \<times> string) list"
  votes :: "(string \<times> string set) list"
  game_votes :: "(string \<times> string set) list"
  game_voter_choices :: "(string \<times> string) list"
  stopgame_voters :: "string set"
  replay_buffer :: "string list"
  users_last_activity :: "(string \<times> real) list"
  command_vote_start :: "real option"
  load_vote_start :: "real option"
  stopgame_vote_start :: "real option"

definition init_bot :: bot where
  "init_bot = \<lparr>game = None, gamename = ''Unknown'', voter_choices = [], votes = [],
     game_votes = [], game_voter_choices = [], stopgame_voters = {}, replay_buffer = [],
     users_last_activity = [], command_vote_start = None, load_vote_start = None,
     stopgame_vote_start = None\<rparr>"

text \<open>What the bot does to the outside: a line to the channel, and the three calls on the
  interpreter process (\<^verbatim>\<open>InformGame(path)\<close>, \<^verbatim>\<open>send_command\<close>, \<^verbatim>\<open>stop\<close>). \<open>Raised\<close> is an
  exception that leaves the handler or the loop body: what was changed before it stays
  changed, and nothing after it is done.\<close>

datatype event = Privmsg string | GameStart string | GameSend string | GameStop | Raised py_error

subsection \<open>Python built-ins\<close>

text \<open>\<^verbatim>\<open>int(x)\<close> on a difference of time stamps truncates towards zero.\<close>

definition py_int :: "real \<Rightarrow> int" where
  "py_int x = (if 0 \<le> x then \<lfloor>x\<rfloor> else \<lceil>x\<rceil>)"

text \<open>The truth value of an optional time stamp: \<^verbatim>\<open>None\<close> and \<^verbatim>\<open>0.0\<close> are false.\<close>

definition truthy :: "real option \<Rightarrow> bool" where
  "truthy t = (case t of None \<Rightarrow> False | Some x \<Rightarrow> x \<noteq> 0)"

text \<open>\<^verbatim>\<open>start and (now - start >= VOTE_INTERVAL)\<close>\<close>

definition due :: "config \<Rightarrow> real \<Rightarrow> real option \<Rightarrow> bool" where
  "due cfg now start =
     (case start of None \<Rightarrow> False
      | Some st \<Rightarrow> st \<noteq> 0 \<and> of_int (VOTE_INTERVAL cfg) \<le> now - st)"

text \<open>\<^verbatim>\<open>d[k]\<close> on a \<^verbatim>\<open>defaultdict(set)\<close> followed by a method that changes the set: a missing
  key is first inserted with the empty set.\<close>

definition bucket_apply ::
  "string \<Rightarrow> (string set \<Rightarrow> string set) \<Rightarrow> (string \<times> string set) list \<Rightarrow> (string \<times> string set) list" where
  "bucket_apply k f d = AList.update k (f (case map_of d k of None \<Rightarrow> {} | Some b \<Rightarrow> b)) d"

text \<open>\<^verbatim>\<open>Counter({k: len(users) for k, users in d.items()})\<close> keeps the order of \<^verbatim>\<open>d\<close>.\<close>

definition counter_of :: "(string \<times> string set) list \<Rightarrow> (string \<times> nat) list" where
  "counter_of d = map (\<lambda>(k, users). (k, card users)) d"

text \<open>\<^verbatim>\<open>most_common(1)\<close> is \<^verbatim>\<open>max(items, key=itemgetter(1))\<close>: one pass that replaces the
  running maximum only by a strictly larger count, so among equal counts the earliest item
  stays.\<close>

fun max_first :: "(string \<times> nat) \<Rightarrow> (string \<times> nat) list \<Rightarrow> (string \<times> nat)" where
  "max_first best [] = best"
| "max_first best (x # xs) = max_first (if snd best < snd x then x else best) xs"

subsection \<open>Activity and quorum\<close>

text \<open>\<^verbatim>\<open>get_active_user_count\<close>, with the reading of the clock as an argument.\<close>

definition get_active_user_count :: "config \<Rightarrow> real \<Rightarrow> bot \<Rightarrow> nat \<times> bot" where
  "get_active_user_count cfg now s =
     (let cutoff = now - of_int (ACTIVE_DECAY cfg);
          inactive = map fst (filter (\<lambda>(user, ts). ts < cutoff) (users_last_activity s));
          remaining = fold AList.delete inactive (users_last_activity s);
          active_users = filter (\<lambda>u. u \<noteq> BOT_NICK cfg) (map fst remaining)
      in (length active_users, s\<lparr>users_last_activity := remaining\<rparr>))"

text \<open>The arithmetic of line 86, \<^verbatim>\<open>max(1, int(active_count * MAJORITY_RATIO) + 1)\<close>: the count
  is converted to a float, the product is a float product, \<^verbatim>\<open>int()\<close> truncates it. Then the
  method itself: the purge of \<^verbatim>\<open>get_active_user_count\<close> has been done when the arithmetic
  raises, so the state is returned in either case.\<close>

definition required_votes_of :: "nat \<Rightarrow> pyfloat \<Rightarrow> py_error + int" where
  "required_votes_of active_count ratio =
     (case float_of_nat active_count of
        Inl err \<Rightarrow> Inl err
      | Inr a \<Rightarrow>
          (case int_of_float (float_mul a ratio) of
             Inl err \<Rightarrow> Inl err
           | Inr i \<Rightarrow> Inr (max 1 (i + 1))))"

definition get_required_votes :: "config \<Rightarrow> real \<Rightarrow> bot \<Rightarrow> (py_error + int) \<times> bot" where
  "get_required_votes cfg now s =
     (let (active_count, s') = get_active_user_count cfg now s
      in (required_votes_of active_count (MAJORITY_RATIO cfg), s'))"

subsection \<open>The replay buffer\<close>

text \<open>Lines 367 to 369 of \<^verbatim>\<open>_relay_game_output\<close>: append, then drop the head once if the
  buffer is longer than \<^verbatim>\<open>BUFFERLENGTH\<close>.\<close>

definition buffer_append :: "config \<Rightarrow> string \<Rightarrow> string list \<Rightarrow> string list" where
  "buffer_append cfg line buf =
     (let buf' = buf @ [line]
      in if int (length buf') > BUFFERLENGTH cfg then tl buf' else buf')"


subsection \<open>Strings\<close>

text \<open>A \<open>char\<close> is one of 256 code points. \<^verbatim>\<open>str.strip()\<close> removes the characters for
  which \<^verbatim>\<open>isspace()\<close> holds; below 256 these are the twelve listed. \<^verbatim>\<open>str.lower()\<close> is
  modelled on the letters A to Z, which is all that a comparison with the command words
  can see.\<close>

definition is_space :: "char \<Rightarrow> bool" where
  "is_space c \<longleftrightarrow> c \<in> set [CHR 0x09, CHR 0x0A, CHR 0x0B, CHR 0x0C, CHR 0x0D, CHR 0x1C,
     CHR 0x1D, CHR 0x1E, CHR 0x1F, CHR 0x20, CHR 0x85, CHR 0xA0]"

definition strip :: "string \<Rightarrow> string" where
  "strip s = rev (dropWhile is_space (rev (dropWhile is_space s)))"

definition rstrip_crlf :: "string \<Rightarrow> string" where
  "rstrip_crlf s = rev (dropWhile (\<lambda>c. c = CHR 0x0D \<or> c = CHR 0x0A) (rev s))"

definition lower_char :: "char \<Rightarrow> char" where
  "lower_char c =
     (case map_of (zip ''ABCDEFGHIJKLMNOPQRSTUVWXYZ'' ''abcdefghijklmnopqrstuvwxyz'') c of
        None \<Rightarrow> c | Some d \<Rightarrow> d)"

definition lower :: "string \<Rightarrow> string" where
  "lower s = map lower_char s"

definition startswith :: "string \<Rightarrow> string \<Rightarrow> bool" where
  "startswith s p \<longleftrightarrow> take (length p) s = p"

fun join :: "string \<Rightarrow> string list \<Rightarrow> string" where
  "join sep [] = []"
| "join sep [x] = x"
| "join sep (x # y # ys) = x @ sep @ join sep (y # ys)"

fun str_nat :: "nat \<Rightarrow> string" where
  "str_nat n =
     (if n < 10 then [char_of (48 + n)] else str_nat (n div 10) @ [char_of (48 + n mod 10)])"

declare str_nat.simps [simp del]

definition str_int :: "int \<Rightarrow> string" where
  "str_int i = (if i < 0 then ''-'' @ str_nat (nat (- i)) else str_nat (nat i))"

text \<open>\<^verbatim>\<open>os.path.join(a, b)\<close> on a POSIX system.\<close>

definition path_join :: "string \<Rightarrow> string \<Rightarrow> string" where
  "path_join a b =
     (if startswith b ''/'' then b
      else if a = [] \<or> last a = CHR ''/'' then a @ b
      else a @ ''/'' @ b)"

subsection \<open>The message handler \<^verbatim>\<open>on_pubmsg\<close>\<close>

text \<open>
  The handler reads the clock on entry (\<open>now\<close>) and at most once more (\<open>t2\<close>): when it starts
  a round, or inside \<^verbatim>\<open>get_required_votes\<close> for \<^verbatim>\<open>!status\<close>. \<open>games\<close> is what
  \<^verbatim>\<open>list_games()\<close> returns: the directory listing, or the empty list when it fails. Each
  branch of the \<^verbatim>\<open>if\<close>/\<^verbatim>\<open>elif\<close> chain is one definition; all replies go to \<^verbatim>\<open>CHANNEL\<close>.
\<close>

definition handle_load :: "string list \<Rightarrow> real \<Rightarrow> string \<Rightarrow> string \<Rightarrow> bot \<Rightarrow> bot \<times> event list" where
  "handle_load games t2 user msg s =
     (let game_name = strip (drop 6 msg) in
      if game_name \<in> set games then
        let s1 = (case map_of (game_voter_choices s) user of
                    None \<Rightarrow> s
                  | Some old_game \<Rightarrow>
                      s\<lparr>game_votes := bucket_apply old_game (\<lambda>b. b - {user}) (game_votes s)\<rparr>);
            s2 = s1\<lparr>game_voter_choices := AList.update user game_name (game_voter_choices s1)\<rparr>;
            s3 = s2\<lparr>game_votes := bucket_apply game_name (insert user) (game_votes s2)\<rparr>
        in (if \<not> truthy (load_vote_start s3) then s3\<lparr>load_vote_start := Some t2\<rparr> else s3, [])
      else (s, [Privmsg (user @ '': game '' @ [CHR 0x27] @ game_name @ [CHR 0x27] @ '' not found.'')]))"

definition seconds_left :: "int \<Rightarrow> string" where
  "seconds_left n =
     ''!! '' @ str_int n @ '' second'' @ (if n \<noteq> 1 then ''s'' else []) @ '' left to vote. !!''"

definition vote_status :: "config \<Rightarrow> real \<Rightarrow> bot \<Rightarrow> string list" where
  "vote_status cfg now s =
     (if game_votes s \<noteq> [] then
        [''Load votes: '' @ join '', ''
           (map (\<lambda>(g, c). g @ '': '' @ str_nat c @ '' vote'' @ (if c \<noteq> 1 then ''s'' else []))
             (counter_of (filter (\<lambda>(g, users). 0 < card users) (game_votes s))))]
        @ (case load_vote_start s of
             None \<Rightarrow> []
           | Some st \<Rightarrow>
               if st = 0 then []
               else [seconds_left (max 0 (py_int (of_int (VOTE_INTERVAL cfg) - (now - st))))])
      else [])
     @ (if votes s \<noteq> [] then
        [''Command votes: '' @ join '', ''
           (map (\<lambda>(c, v). [CHR 0x27] @ c @ [CHR 0x27] @ '': '' @ str_nat v @ '' vote''
                            @ (if v \<noteq> 1 then ''s'' else []))
             (counter_of (filter (\<lambda>(c, users). 0 < card users) (votes s))))]
        @ (case command_vote_start s of
             None \<Rightarrow> []
           | Some st \<Rightarrow>
               if st = 0 then []
               else [seconds_left (py_int (of_int (VOTE_INTERVAL cfg) - (now - st)))])
      else [])"

definition handle_vote :: "config \<Rightarrow> real \<Rightarrow> real \<Rightarrow> string \<Rightarrow> string \<Rightarrow> bot \<Rightarrow> bot \<times> event list" where
  "handle_vote cfg now t2 user msg s =
     (let cmd = strip (drop 5 msg) in
      if cmd = [] then
        (let status_msgs = vote_status cfg now s
         in (s, if status_msgs \<noteq> [] then map Privmsg status_msgs
                else [Privmsg ''No active votes currently.'']))
      else if game s = None then
        (s, [Privmsg ''No game loaded. Vote to load a game first using: !load <gamefile>''])
      else
        let s1 = (case map_of (voter_choices s) user of
                    None \<Rightarrow> s
                  | Some old_cmd \<Rightarrow> s\<lparr>votes := bucket_apply old_cmd (\<lambda>b. b - {user}) (votes s)\<rparr>);
            s2 = s1\<lparr>voter_choices := AList.update user cmd (voter_choices s1)\<rparr>;
            s3 = s2\<lparr>votes := bucket_apply cmd (insert user) (votes s2)\<rparr>
        in (if \<not> truthy (command_vote_start s3) then s3\<lparr>command_vote_start := Some t2\<rparr> else s3, []))"

definition handle_stopgame :: "real \<Rightarrow> string \<Rightarrow> bot \<Rightarrow> bot \<times> event list" where
  "handle_stopgame t2 user s =
     (if game s = None then (s, [Privmsg ''No game is currently running.''])
      else if user \<notin> stopgame_voters s then
        (let s1 = s\<lparr>stopgame_voters := insert user (stopgame_voters s)\<rparr>
         in (if \<not> truthy (stopgame_vote_start s1) then s1\<lparr>stopgame_vote_start := Some t2\<rparr> else s1, []))
      else (s, [Privmsg (user @ '': you already voted to stop the game this round.'')]))"

definition handle_replay :: "bot \<Rightarrow> bot \<times> event list" where
  "handle_replay s =
     (if replay_buffer s \<noteq> [] then (s, map Privmsg (replay_buffer s))
      else (s, [Privmsg ''No lines to replay yet.'']))"

definition handle_status :: "config \<Rightarrow> real \<Rightarrow> bot \<Rightarrow> bot \<times> event list" where
  "handle_status cfg t2 s =
     (let (result, s') = get_required_votes cfg t2 s
      in case result of
           Inl err \<Rightarrow> (s', [Raised err])
         | Inr required_votes \<Rightarrow>
             (let game_status = (if game s' \<noteq> None then ''Active game: '' @ gamename s'
                                 else ''No game loaded.'')
              in (s', [Privmsg (game_status @ '' | ''
                         @ ''Vote interval: '' @ str_int (VOTE_INTERVAL cfg) @ ''s | ''
                         @ ''Majority threshold: '' @ str_int required_votes @ '' votes | ''
                         @ ''Replay buffer size: '' @ str_nat (length (replay_buffer s')) @ ''/''
                         @ str_int (BUFFERLENGTH cfg))])))"

definition on_pubmsg ::
  "config \<Rightarrow> string list \<Rightarrow> real \<Rightarrow> real \<Rightarrow> string \<Rightarrow> string \<Rightarrow> bot \<Rightarrow> bot \<times> event list" where
  "on_pubmsg cfg games now t2 user raw s =
     (let msg = strip raw;
          s0 = s\<lparr>users_last_activity := AList.update user now (users_last_activity s)\<rparr>
      in if lower msg = ''!games'' then
           (s0, [Privmsg (if games \<noteq> [] then ''Available games: '' @ join '', '' games
                          else ''No games found.'')])
         else if startswith (lower msg) ''!load '' then handle_load games t2 user msg s0
         else if startswith (lower msg) ''!vote'' then handle_vote cfg now t2 user msg s0
         else if lower msg = ''!stopgame'' then handle_stopgame t2 user s0
         else if lower msg = ''!replay'' then handle_replay s0
         else if lower msg = ''!status'' then handle_status cfg t2 s0
         else if lower msg = ''!help'' then
           (s0, [Privmsg ''Commands: !games, !load <gamefile>, !vote <command>, !stopgame, !replay, !status''])
         else (s0, []))"

subsection \<open>The scheduler tick: one pass of the loop of \<^verbatim>\<open>_vote_loop\<close>\<close>

definition load_game :: "config \<Rightarrow> string \<Rightarrow> bot \<Rightarrow> bot \<times> event list" where
  "load_game cfg gamefile s =
     (let stopped = (if game s \<noteq> None then [GameStop, Privmsg ''Previous game stopped.''] else []);
          path = path_join (GAME_DIR cfg) gamefile
      in (s\<lparr>game := Some path\<rparr>, stopped @ [GameStart path]))"

text \<open>Lines 278 to 295. \<open>Some\<close> is the \<^verbatim>\<open>continue\<close>; \<open>None\<close> means the loop body goes on
  with the next \<^verbatim>\<open>if\<close>. The test \<^verbatim>\<open>if self.game_votes\<close> is the case split on the counter,
  which has one entry per key of the dictionary.\<close>

definition load_phase :: "config \<Rightarrow> real \<Rightarrow> int \<Rightarrow> bot \<Rightarrow> (bot \<times> event list) option" where
  "load_phase cfg now required_votes s =
     (if due cfg now (load_vote_start s) then
        (case counter_of (game_votes s) of
           [] \<Rightarrow> None
         | c # cs \<Rightarrow>
             let (top_game, top_votes) = max_first c cs;
                 (s1, ev) =
                   (if required_votes \<le> int top_votes then
                      (let (s', ev') = load_game cfg top_game s
                       in (s', ev' @ [Privmsg (''Loading game: '' @ top_game)]))
                    else (s, [Privmsg ''No majority to load game. Votes cleared.'']))
             in Some (s1\<lparr>game_votes := [], game_voter_choices := [], votes := [],
                          voter_choices := [], stopgame_voters := {}, load_vote_start := None\<rparr>, ev))
      else None)"

text \<open>Lines 297 to 313.\<close>

definition stop_phase :: "config \<Rightarrow> real \<Rightarrow> int \<Rightarrow> bot \<Rightarrow> (bot \<times> event list) option" where
  "stop_phase cfg now required_votes s =
     (if due cfg now (stopgame_vote_start s) then
        (if game s \<noteq> None \<and> stopgame_voters s \<noteq> {} then
           let stop_votes = card (stopgame_voters s);
               (s1, ev) =
                 (if required_votes \<le> int stop_votes then
                    (s\<lparr>game := None\<rparr>, [GameStop, Privmsg ''Game stopped by vote.''])
                  else (s, [Privmsg ''No majority to stop game. Votes cleared.'']))
           in Some (s1\<lparr>votes := [], voter_choices := [], game_votes := [],
                        game_voter_choices := [], stopgame_voters := {},
                        stopgame_vote_start := None\<rparr>, ev)
         else None)
      else None)"

text \<open>Lines 320 to 333, reached only with a game loaded.\<close>

definition command_phase :: "config \<Rightarrow> real \<Rightarrow> int \<Rightarrow> bot \<Rightarrow> bot \<times> event list" where
  "command_phase cfg now required_votes s =
     (if due cfg now (command_vote_start s) then
        (case counter_of (votes s) of
           [] \<Rightarrow> (s, [])
         | c # cs \<Rightarrow>
             let (top_cmd, top_votes) = max_first c cs;
                 ev = (if required_votes \<le> int top_votes then
                         [GameSend top_cmd, Privmsg (''> '' @ top_cmd)]
                       else [Privmsg ''No majority for command. Votes cleared.''])
             in (s\<lparr>votes := [], voter_choices := [], command_vote_start := None\<rparr>, ev))
      else (s, []))"

text \<open>The body of the loop. It reads the clock three times: \<open>now\<close> in line 271, \<open>t1\<close> inside
  the call of \<^verbatim>\<open>get_active_user_count\<close> in line 274, \<open>t2\<close> inside \<^verbatim>\<open>get_required_votes\<close> in
  line 276. An exception in line 276 ends the loop.\<close>

definition vote_loop_body :: "config \<Rightarrow> real \<Rightarrow> real \<Rightarrow> real \<Rightarrow> bot \<Rightarrow> bot \<times> event list" where
  "vote_loop_body cfg now t1 t2 s =
     (let (active_count, s1) = get_active_user_count cfg t1 s;
          (result, s2) = get_required_votes cfg t2 s1
      in case result of
           Inl err \<Rightarrow> (s2, [Raised err])
         | Inr required_votes \<Rightarrow>
            (case load_phase cfg now required_votes s2 of
               Some r \<Rightarrow> r
             | None \<Rightarrow>
                (case stop_phase cfg now required_votes s2 of
                   Some r \<Rightarrow> r
                 | None \<Rightarrow>
                     if game s2 = None then (s2\<lparr>votes := [], voter_choices := []\<rparr>, [])
                     else command_phase cfg now required_votes s2)))"

subsection \<open>The output relay\<close>

text \<open>One line read by \<^verbatim>\<open>_relay_game_output\<close>. The pair holds the two local variables of
  the relay thread, \<^verbatim>\<open>first_line_set\<close> and \<^verbatim>\<open>game_name_counter\<close>.\<close>

definition relay_line ::
  "config \<Rightarrow> string \<Rightarrow> bool \<times> nat \<Rightarrow> bot \<Rightarrow> (bool \<times> nat) \<times> bot \<times> event list" where
  "relay_line cfg raw loc s =
     (let (first_line_set, game_name_counter) = loc;
          line = rstrip_crlf raw
      in if line \<noteq> [] then
           let (loc', s1) =
                 (if \<not> first_line_set then
                    (if game_name_counter + 1 = 3
                     then ((True, game_name_counter + 1), s\<lparr>gamename := line\<rparr>)
                     else ((first_line_set, game_name_counter + 1), s))
                  else (loc, s))
           in (loc', s1\<lparr>replay_buffer := buffer_append cfg line (replay_buffer s1)\<rparr>, [Privmsg line])
         else (loc, s, []))"

subsection \<open>Runs\<close>

text \<open>The bot's state changes only through a channel message, a tick of the scheduler or
  a line of game output. A run applies a list of these to a state. Runs go on after a
  \<open>Raised\<close> event, so they include every sequence of steps that the program can make.\<close>

datatype input =
  Pubmsg "string list" real real string string
| Tick real real real
| Output "bool \<times> nat" string

fun step :: "config \<Rightarrow> input \<Rightarrow> bot \<Rightarrow> bot \<times> event list" where
  "step cfg (Pubmsg games now t2 user raw) s = on_pubmsg cfg games now t2 user raw s"
| "step cfg (Tick now t1 t2) s = vote_loop_body cfg now t1 t2 s"
| "step cfg (Output loc raw) s = snd (relay_line cfg raw loc s)"

fun run :: "config \<Rightarrow> input list \<Rightarrow> bot \<Rightarrow> bot" where
  "run cfg [] s = s"
| "run cfg (i # is) s = run cfg is (fst (step cfg i s))"

subsection \<open>Well-formed ballots\<close>

text \<open>What the two dictionaries of a ballot (voter to choice, choice to set of voters) say
  about each other when they agree: the tally has each key once, every recorded choice
  has a bucket that holds its voter, and every member of a bucket has that bucket's key
  as recorded choice.\<close>

definition ballot_inv :: "(string \<times> string) list \<Rightarrow> (string \<times> string set) list \<Rightarrow> bool" where
  "ballot_inv choices tally \<longleftrightarrow>
     distinct (map fst tally)
     \<and> (\<forall>u c. map_of choices u = Some c \<longrightarrow> (\<exists>b. map_of tally c = Some b \<and> u \<in> b))
     \<and> (\<forall>k b u. map_of tally k = Some b \<and> u \<in> b \<longrightarrow> map_of choices u = Some k)"

definition ballots_ok :: "bot \<Rightarrow> bool" where
  "ballots_ok s \<longleftrightarrow> ballot_inv (voter_choices s) (votes s)
     \<and> ballot_inv (game_voter_choices s) (game_votes s)"

text \<open>Two more facts that the code keeps true: the activity dictionary has each nick
  once, and votes for a command or for stopping are only on record while a game is
  loaded.\<close>

definition session_inv :: "bot \<Rightarrow> bool" where
  "session_inv s \<longleftrightarrow>
     distinct (map fst (users_last_activity s))
     \<and> (votes s \<noteq> [] \<or> stopgame_voters s \<noteq> {} \<longrightarrow> game s \<noteq> None)"

subsection \<open>A sample configuration and sample runs\<close>

text \<open>The ratio is 0.5. The doubles nearest to 0.7 and to 0.58 are used with the quorum
  arithmetic.\<close>

definition ratio_07 :: pyfloat where
  "ratio_07 = Finite 6305039478318694 (- 53)"

definition ratio_058 :: pyfloat where
  "ratio_058 = Finite 5224175567749775 (- 53)"

definition demo_cfg :: config where
  "demo_cfg = \<lparr>BOT_NICK = ''informbot'', GAME_DIR = ''games'', VOTE_INTERVAL = 30,
     BUFFERLENGTH = 5, ACTIVE_DECAY = 300, MAJORITY_RATIO = Finite 1 (- 1)\<rparr>"

definition demo_games :: "string list" where
  "demo_games = [''zork'', ''advent'']"

text \<open>\<open>al\<close> votes to load \<open>zork\<close> at time 1; the tick at time 31 loads it.\<close>

definition zork_loaded :: "input list" where
  "zork_loaded = [Pubmsg demo_games 1 1 ''al'' ''!load zork'', Tick 31 31 31]"

text \<open>Runs that end just before a resolution: a load vote, a load vote with a majority
  for the second bucket, a stop vote, a command vote with a majority for the second bucket
  (three active participants, two for \<open>north\<close>) and one without a majority.\<close>

definition load_pending :: "input list" where
  "load_pending = [Pubmsg demo_games 1 1 ''al'' ''!load zork'']"

definition load_majority :: "input list" where
  "load_majority =
     [Pubmsg demo_games 1 1 ''al'' ''!load zork'',
      Pubmsg demo_games 2 2 ''bo'' ''!load advent'',
      Pubmsg demo_games 3 3 ''cy'' ''!load advent'']"

definition stop_pending :: "input list" where
  "stop_pending = zork_loaded @ [Pubmsg demo_games 40 40 ''al'' ''!stopgame'']"

definition command_pending :: "input list" where
  "command_pending = zork_loaded @
     [Pubmsg demo_games 40 40 ''al'' ''!vote south'',
      Pubmsg demo_games 41 41 ''bo'' ''!vote north'',
      Pubmsg demo_games 42 42 ''cy'' ''!vote north'']"

definition command_split :: "input list" where
  "command_split = zork_loaded @
     [Pubmsg demo_games 40 40 ''al'' ''!vote north'',
      Pubmsg demo_games 41 41 ''bo'' ''!vote south'',
      Pubmsg demo_games 42 42 ''cy'' ''hello'']"

text \<open>A tie: \<open>south\<close> gets its bucket first, \<open>north\<close> is the first to reach two votes.\<close>

definition tie_run :: "input list" where
  "tie_run = zork_loaded @
     [Pubmsg demo_games 40 40 ''al'' ''!vote south'',
      Pubmsg demo_games 41 41 ''bo'' ''!vote north'',
      Pubmsg demo_games 42 42 ''di'' ''!vote north'',
      Pubmsg demo_games 43 43 ''cy'' ''!vote south'']"

definition load_tie :: "input list" where
  "load_tie = [Pubmsg demo_games 1 1 ''al'' ''!load zork'',
     Pubmsg demo_games 2 2 ''bo'' ''!load advent'']"

text \<open>\<open>al\<close> has voted for \<open>north\<close>; a second vote of \<open>al\<close> is applied to this state.\<close>

definition revote_run :: "input list" where
  "revote_run = zork_loaded @ [Pubmsg demo_games 40 40 ''al'' ''!vote north'']"

text \<open>With a game running, a command vote and a stop vote are open when a load vote
  comes due.\<close>

definition cross_clear_run :: "input list" where
  "cross_clear_run = zork_loaded @
     [Pubmsg demo_games 40 40 ''al'' ''!vote north'',
      Pubmsg demo_games 41 41 ''bo'' ''!stopgame'',
      Pubmsg demo_games 42 42 ''al'' ''!load advent'']"

text \<open>A command vote at time 40 is swept away by the load resolution at time 71.\<close>

definition stale_timer_run :: "input list" where
  "stale_timer_run = zork_loaded @
     [Pubmsg demo_games 40 40 ''al'' ''!vote north'',
      Pubmsg demo_games 41 41 ''al'' ''!load zork'',
      Tick 71 71 71]"

text \<open>A command vote at time 40 is swept away by the stop resolution at time 71, which
  ends the game.\<close>

definition stopped_run :: "input list" where
  "stopped_run = zork_loaded @
     [Pubmsg demo_games 40 40 ''al'' ''!vote north'',
      Pubmsg demo_games 41 41 ''al'' ''!stopgame'',
      Tick 71 71 71]"


text \<open>Seven lines of game output, each read by a relay thread that has not yet seen a
  line.\<close>

definition seven_lines :: "input list" where
  "seven_lines = map (Output (False, 0)) [''L1'', ''L2'', ''L3'', ''L4'', ''L5'', ''L6'', ''L7'']"

section \<open>Properties\<close>

subsection \<open>Auxiliary facts\<close>

lemma int_of_float_quorum:
  assumes "int_of_float (Finite m e) = Inr t"
  shows "max 1 (t + 1) = max 1 (\<lfloor>float_val m e\<rfloor> + 1)"
proof (cases "0 \<le> e")
  case True
  with assms have "t = m * 2 ^ nat e" by (simp add: int_of_float_def)
  moreover have "float_val m e = of_int (m * 2 ^ nat e)" using True by (simp add: float_val_def)
  ultimately show ?thesis by (simp only: floor_of_int)
next
  case False
  note neg = this
  have v: "float_val m e = of_int m / of_int (2 ^ nat (- e))"
    using neg by (simp add: float_val_def)
  show ?thesis
  proof (cases "0 \<le> m")
    case True
    with assms neg have "t = m div 2 ^ nat (- e)" by (simp add: int_of_float_def)
    then show ?thesis unfolding v by (simp only: floor_divide_of_int_eq)
  next
    case False
    with assms neg have "t = - ((- m) div 2 ^ nat (- e))" by (simp add: int_of_float_def)
    moreover have "0 \<le> (- m) div 2 ^ nat (- e)" using False by (simp add: pos_imp_zdiv_nonneg_iff)
    ultimately have t: "t \<le> 0" by simp
    have "float_val m e < 0" unfolding v using False by (simp add: divide_neg_pos)
    then have "\<lfloor>float_val m e\<rfloor> < 0" by simp
    with t show ?thesis by simp
  qed
qed

lemma bit_length_le:
  "M < 2 ^ j \<Longrightarrow> bit_length M \<le> j"
proof (induction j arbitrary: M)
  case 0
  then show ?case by (simp add: bit_length.simps)
next
  case (Suc j)
  show ?case
  proof (cases "M \<le> 0")
    case True
    then show ?thesis by (simp add: bit_length.simps)
  next
    case False
    from Suc.prems have "M div 2 < 2 ^ j" by simp
    then have "bit_length (M div 2) \<le> j" by (rule Suc.IH)
    with False show ?thesis by (subst bit_length.simps) simp
  qed
qed

lemma make_float_zero: "\<exists>e'. make_float neg 0 e = Finite 0 e'"
  by (simp add: make_float_def round_mag_def Let_def)

lemma required_votes_none_active: "required_votes_of 0 (Finite m e) = Inr 1"
proof -
  obtain e0 where a: "make_float False 0 0 = Finite 0 e0" using make_float_zero by blast
  obtain e1 where p: "make_float False 0 (e0 + e) = Finite 0 e1" using make_float_zero by blast
  show ?thesis
    by (simp add: required_votes_of_def float_of_nat_def a float_mul_def p int_of_float_def)
qed

lemma float_of_nat_exact:
  assumes "n < 2 ^ 53"
  shows "float_of_nat n = Inr (Finite (int n) 0)"
proof -
  have "int n < 2 ^ 53" using assms by (metis of_nat_less_iff of_nat_numeral of_nat_power)
  then have "bit_length (int n) \<le> 53" by (rule bit_length_le)
  then have r: "round_mag (int n) 0 = (int n, 0)" by (simp add: round_mag_def)
  have "int n < 2 ^ 1024" using \<open>int n < 2 ^ 53\<close> by (rule less_trans) simp
  then show ?thesis by (simp add: float_of_nat_def make_float_def r)
qed

lemma small_product:
  fixes n :: int
  assumes "0 \<le> n" "n < 2 ^ 53" "k \<le> 52"
  shows "n * 2 ^ k < 2 ^ 1024"
proof -
  have "(2::int) ^ k \<le> 2 ^ 52" using assms(3) by (intro power_increasing) simp_all
  moreover have "(0::int) < 2 ^ 52" by simp
  ultimately have "n * 2 ^ k < 2 ^ 53 * 2 ^ 52"
    using assms(1) assms(2) by (intro mult_less_le_imp_less) simp_all
  also have "\<dots> < (2 :: int) ^ 1024" by simp
  finally show ?thesis .
qed

text \<open>Multiplying an integer below \<open>2^53\<close> by a power of two that is at most 1 is exact.\<close>

lemma scaled_round:
  assumes "0 \<le> n" "n < 2 ^ 53" "k \<le> 52"
  shows "\<exists>q j. round_mag (n * 2 ^ k) (- int k) = (q * 2 ^ j, - int j) \<and> q * 2 ^ j < 2 ^ 1024
           \<and> (q * 2 ^ j) div 2 ^ j = n \<and> 0 \<le> q * 2 ^ j"
proof -
  let ?M = "n * 2 ^ k"
  have "?M < 2 ^ 53 * 2 ^ k" using assms(2) by simp
  then have "?M < 2 ^ (53 + k)" by (simp add: power_add)
  then have bl: "bit_length ?M \<le> 53 + k" by (rule bit_length_le)
  define kk where "kk = max (int (bit_length ?M) - 53) (- 1074 - (- int k))"
  have kk_le: "kk \<le> int k" using bl assms(3) by (simp add: kk_def)
  show ?thesis
  proof (cases "kk \<le> 0")
    case True
    then have "round_mag ?M (- int k) = (n * 2 ^ k, - int k)"
      by (simp add: round_mag_def kk_def)
    moreover have "n * 2 ^ k < 2 ^ 1024"
      using assms(1) assms(2) assms(3) by (rule small_product)
    moreover have "(n * 2 ^ k) div 2 ^ k = n" by simp
    moreover have "0 \<le> n * 2 ^ k" using assms(1) by simp
    ultimately show ?thesis by blast
  next
    case False
    then have pos: "0 < kk" by simp
    define j where "j = nat kk"
    have j: "j \<le> k" "0 < j" "kk = int j" using kk_le pos by (simp_all add: j_def)
    have split: "(2::int) ^ k = 2 ^ (k - j) * 2 ^ j"
      using j(1) by (simp add: power_add [symmetric])
    have M: "?M = (n * 2 ^ (k - j)) * 2 ^ j"
      by (subst split) (simp only: mult.assoc)
    have d: "?M div 2 ^ j = n * 2 ^ (k - j)" and m: "?M mod 2 ^ j = 0"
      unfolding M by simp_all
    have e: "- int k + int j = - int (k - j)" using j(1) by simp
    have "round_mag ?M (- int k) = (n * 2 ^ (k - j), - int k + int j)"
      using False unfolding round_mag_def kk_def [symmetric] Let_def j(3)
      by (simp add: d m)
    then have r: "round_mag ?M (- int k) = (n * 2 ^ (k - j), - int (k - j))"
      by (simp only: e)
    have "k - j \<le> 52" using assms(3) by simp
    with assms(1) assms(2) have lt: "n * 2 ^ (k - j) < 2 ^ 1024" by (rule small_product)
    have dv: "(n * 2 ^ (k - j)) div 2 ^ (k - j) = n" by simp
    have nn: "0 \<le> n * 2 ^ (k - j)" using assms(1) by simp
    from r lt dv nn show ?thesis by blast
  qed
qed

lemma required_votes_ratio_one:
  assumes "n < 2 ^ 53" "k \<le> 52"
  shows "required_votes_of n (Finite (2 ^ k) (- int k)) = Inr (int n + 1)"
proof -
  have n: "int n < 2 ^ 53" using assms(1) by (metis of_nat_less_iff of_nat_numeral of_nat_power)
  from scaled_round [OF _ n assms(2)] obtain q j where
    r: "round_mag (int n * 2 ^ k) (- int k) = (q * 2 ^ j, - int j)"
    and lt: "q * 2 ^ j < 2 ^ 1024" and dv: "(q * 2 ^ j) div 2 ^ j = int n" and nn: "0 \<le> q * 2 ^ j"
    by auto
  have nonneg: "\<not> int n * 2 ^ k < 0" by (simp add: not_less)
  have ab: "\<bar>int n * 2 ^ k\<bar> = int n * 2 ^ k" by simp
  have no: "\<not> (0 \<le> - int j \<and> 2 ^ 1024 \<le> q * 2 ^ j * 2 ^ nat (- int j))"
    using lt by (cases "j = 0") simp_all
  have "make_float False (int n * 2 ^ k) (- int k) = Finite (q * 2 ^ j) (- int j)"
    unfolding make_float_def r Let_def prod.case using no by (simp only: if_False)
  then have "float_mul (Finite (int n) 0) (Finite (2 ^ k) (- int k)) = Finite (q * 2 ^ j) (- int j)"
    unfolding float_mul_def using nonneg ab by simp
  moreover have "int_of_float (Finite (q * 2 ^ j) (- int j)) = Inr (int n)"
    using dv nn by (cases "j = 0") (simp_all add: int_of_float_def)
  ultimately show ?thesis
    by (simp add: required_votes_of_def float_of_nat_exact [OF assms(1)])
qed

lemma fold_delete_filter:
  "fold AList.delete ks al = filter (\<lambda>(k, v). k \<notin> set ks) al"
proof (induction ks arbitrary: al)
  case Nil
  then show ?case by simp
next
  case (Cons k ks)
  have "fold AList.delete (k # ks) al = fold AList.delete ks (AList.delete k al)" by simp
  also have "\<dots> = filter (\<lambda>(k', v). k' \<notin> set ks) (AList.delete k al)" by (rule Cons.IH)
  also have "\<dots> = filter (\<lambda>(k', v). k' \<notin> set (k # ks)) al"
    by (auto simp: AList.delete_eq intro: filter_cong)
  finally show ?case .
qed

lemma purge_filter:
  assumes "distinct (map fst al)"
  shows "fold AList.delete (map fst (filter P al)) al = filter (\<lambda>e. \<not> P e) al"
proof -
  have "(k, v) \<in> set al \<Longrightarrow> k \<in> fst ` set (filter P al) \<longleftrightarrow> P (k, v)" for k v
    using assms by (force dest: eq_key_imp_eq_value)
  then show ?thesis
    unfolding fold_delete_filter by (intro filter_cong) auto
qed

lemma active_count_frame:
  "get_active_user_count cfg t s = (n, s') \<Longrightarrow> s' = s\<lparr>users_last_activity := users_last_activity s'\<rparr>"
  by (auto simp: get_active_user_count_def Let_def)

lemma required_votes_frame:
  "get_required_votes cfg t s = (r, s') \<Longrightarrow> s' = s\<lparr>users_last_activity := users_last_activity s'\<rparr>"
  by (auto simp: get_required_votes_def split: prod.splits dest: active_count_frame)

lemma vote_loop_body_unfold:
  assumes ac: "get_active_user_count cfg t1 s = (n1, s1)"
    and rv: "get_required_votes cfg t2 s1 = (result, s2)"
  shows "\<exists>U. s2 = s\<lparr>users_last_activity := U\<rparr>"
    and "vote_loop_body cfg now t1 t2 s =
      (case result of
         Inl err \<Rightarrow> (s2, [Raised err])
       | Inr req \<Rightarrow>
          (case load_phase cfg now req s2 of
             Some r \<Rightarrow> r
           | None \<Rightarrow>
              (case stop_phase cfg now req s2 of
                 Some r \<Rightarrow> r
               | None \<Rightarrow>
                   if game s2 = None then (s2\<lparr>votes := [], voter_choices := []\<rparr>, [])
                   else command_phase cfg now req s2)))"
proof -
  from active_count_frame [OF ac] obtain U1 where "s1 = s\<lparr>users_last_activity := U1\<rparr>" ..
  moreover from required_votes_frame [OF rv] obtain U2 where "s2 = s1\<lparr>users_last_activity := U2\<rparr>" ..
  ultimately have "s2 = s\<lparr>users_last_activity := U2\<rparr>" by simp
  then show "\<exists>U. s2 = s\<lparr>users_last_activity := U\<rparr>" ..
  show "vote_loop_body cfg now t1 t2 s =
      (case result of
         Inl err \<Rightarrow> (s2, [Raised err])
       | Inr req \<Rightarrow>
          (case load_phase cfg now req s2 of
             Some r \<Rightarrow> r
           | None \<Rightarrow>
              (case stop_phase cfg now req s2 of
                 Some r \<Rightarrow> r
               | None \<Rightarrow>
                   if game s2 = None then (s2\<lparr>votes := [], voter_choices := []\<rparr>, [])
                   else command_phase cfg now req s2)))"
    by (simp add: vote_loop_body_def ac rv)
qed

lemma buffer_append_drop:
  assumes "0 \<le> BUFFERLENGTH cfg" "int (length buf) \<le> BUFFERLENGTH cfg"
  shows "buffer_append cfg l buf = drop (length buf + 1 - nat (BUFFERLENGTH cfg)) (buf @ [l])"
proof (cases "int (length buf) + 1 > BUFFERLENGTH cfg")
  case True
  with assms have "length buf + 1 - nat (BUFFERLENGTH cfg) = 1" by linarith
  with True show ?thesis by (simp add: buffer_append_def drop_Suc del: drop_append)
next
  case False
  then have "length buf + 1 - nat (BUFFERLENGTH cfg) = 0" by linarith
  with False show ?thesis by (simp add: buffer_append_def)
qed

lemma fold_buffer_append:
  assumes "0 \<le> BUFFERLENGTH cfg" "int (length buf) \<le> BUFFERLENGTH cfg"
  shows "fold (buffer_append cfg) ls buf =
         drop (length buf + length ls - nat (BUFFERLENGTH cfg)) (buf @ ls)"
  using assms(2)
proof (induction ls arbitrary: buf)
  case Nil
  then show ?case by simp
next
  case (Cons l ls)
  let ?b = "buffer_append cfg l buf"
  have b: "?b = drop (length buf + 1 - nat (BUFFERLENGTH cfg)) (buf @ [l])"
    using assms(1) Cons.prems by (rule buffer_append_drop)
  have len: "int (length ?b) \<le> BUFFERLENGTH cfg"
    unfolding b using assms(1) Cons.prems by simp
  have "fold (buffer_append cfg) (l # ls) buf = fold (buffer_append cfg) ls ?b" by simp
  also have "\<dots> = drop (length ?b + length ls - nat (BUFFERLENGTH cfg)) (?b @ ls)"
    using len by (rule Cons.IH)
  also have "\<dots> = drop (length buf + length (l # ls) - nat (BUFFERLENGTH cfg)) (buf @ l # ls)"
  proof (cases "int (length buf) + 1 > BUFFERLENGTH cfg")
    case True
    with assms(1) Cons.prems have k: "length buf + 1 - nat (BUFFERLENGTH cfg) = 1"
      and n: "length buf = nat (BUFFERLENGTH cfg)" by linarith+
    have "drop 1 (buf @ [l]) @ ls = drop 1 (buf @ l # ls)" by (cases buf) simp_all
    then show ?thesis unfolding b k using n by (simp add: drop_Suc del: drop_append)
  next
    case False
    then have k: "length buf + 1 - nat (BUFFERLENGTH cfg) = 0" by linarith
    show ?thesis unfolding b k by simp
  qed
  finally show ?case .
qed

lemma buffer_append_length:
  "int (length buf) \<le> BUFFERLENGTH cfg \<Longrightarrow> int (length (buffer_append cfg l buf)) \<le> BUFFERLENGTH cfg"
  by (auto simp: buffer_append_def Let_def)

text \<open>The first maximum of a scan: everything before it is strictly smaller, nothing after
  it is larger.\<close>

lemma max_first_earliest:
  "max_first best xs = r \<Longrightarrow>
     (r = best \<and> (\<forall>x\<in>set xs. snd x \<le> snd best))
     \<or> (\<exists>pre post. xs = pre @ r # post \<and> snd best < snd r
          \<and> (\<forall>x\<in>set pre. snd x < snd r) \<and> (\<forall>x\<in>set post. snd x \<le> snd r))"
proof (induction xs arbitrary: best)
  case Nil
  then show ?case by simp
next
  case (Cons x xs)
  show ?case
  proof (cases "snd best < snd x")
    case True
    with Cons.prems have "max_first x xs = r" by simp
    from Cons.IH [OF this] show ?thesis
    proof
      assume "r = x \<and> (\<forall>y\<in>set xs. snd y \<le> snd x)"
      with True have "x # xs = [] @ r # xs \<and> snd best < snd r
          \<and> (\<forall>y\<in>set []. snd y < snd r) \<and> (\<forall>y\<in>set xs. snd y \<le> snd r)" by simp
      then show ?thesis by blast
    next
      assume "\<exists>pre post. xs = pre @ r # post \<and> snd x < snd r
          \<and> (\<forall>y\<in>set pre. snd y < snd r) \<and> (\<forall>y\<in>set post. snd y \<le> snd r)"
      then obtain pre post where "xs = pre @ r # post" "snd x < snd r"
        "\<forall>y\<in>set pre. snd y < snd r" "\<forall>y\<in>set post. snd y \<le> snd r" by blast
      with True have "x # xs = (x # pre) @ r # post \<and> snd best < snd r
          \<and> (\<forall>y\<in>set (x # pre). snd y < snd r) \<and> (\<forall>y\<in>set post. snd y \<le> snd r)" by simp
      then show ?thesis by blast
    qed
  next
    case False
    with Cons.prems have "max_first best xs = r" by simp
    from Cons.IH [OF this] show ?thesis
    proof
      assume "r = best \<and> (\<forall>y\<in>set xs. snd y \<le> snd best)"
      with False show ?thesis by simp
    next
      assume "\<exists>pre post. xs = pre @ r # post \<and> snd best < snd r
          \<and> (\<forall>y\<in>set pre. snd y < snd r) \<and> (\<forall>y\<in>set post. snd y \<le> snd r)"
      then obtain pre post where "xs = pre @ r # post" "snd best < snd r"
        "\<forall>y\<in>set pre. snd y < snd r" "\<forall>y\<in>set post. snd y \<le> snd r" by blast
      with False have "x # xs = (x # pre) @ r # post \<and> snd best < snd r
          \<and> (\<forall>y\<in>set (x # pre). snd y < snd r) \<and> (\<forall>y\<in>set post. snd y \<le> snd r)" by simp
      then show ?thesis by blast
    qed
  qed
qed

lemma max_first_split:
  assumes "max_first c cs = r"
  shows "\<exists>pre post. c # cs = pre @ r # post
          \<and> (\<forall>x\<in>set pre. snd x < snd r) \<and> (\<forall>x\<in>set post. snd x \<le> snd r)"
  using max_first_earliest [OF assms]
proof
  assume "r = c \<and> (\<forall>x\<in>set cs. snd x \<le> snd c)"
  then have "c # cs = [] @ r # cs \<and> (\<forall>x\<in>set []. snd x < snd r) \<and> (\<forall>x\<in>set cs. snd x \<le> snd r)"
    by simp
  then show ?thesis by blast
next
  assume "\<exists>pre post. cs = pre @ r # post \<and> snd c < snd r
          \<and> (\<forall>x\<in>set pre. snd x < snd r) \<and> (\<forall>x\<in>set post. snd x \<le> snd r)"
  then obtain pre post where "cs = pre @ r # post" "snd c < snd r"
    "\<forall>x\<in>set pre. snd x < snd r" "\<forall>x\<in>set post. snd x \<le> snd r" by blast
  then have "c # cs = (c # pre) @ r # post \<and> (\<forall>x\<in>set (c # pre). snd x < snd r)
      \<and> (\<forall>x\<in>set post. snd x \<le> snd r)" by simp
  then show ?thesis by blast
qed

lemma bucket_apply_keys:
  "map fst (bucket_apply k f d) = (if k \<in> set (map fst d) then map fst d else map fst d @ [k])"
  by (simp add: bucket_apply_def AList.update_keys)

lemma map_of_bucket_apply:
  "map_of (bucket_apply k f d) = (map_of d)(k \<mapsto> f (case map_of d k of None \<Rightarrow> {} | Some b \<Rightarrow> b))"
  by (simp add: bucket_apply_def AList.update_conv')

lemma distinct_bucket_apply:
  "distinct (map fst d) \<Longrightarrow> distinct (map fst (bucket_apply k f d))"
  by (simp add: bucket_apply_def AList.distinct_update)

lemma leading_entry:
  assumes "counter_of d = c # cs" and "max_first c cs = (ch, n)"
  shows "\<exists>pre b post. d = pre @ (ch, b) # post \<and> card b = n
           \<and> list_all (\<lambda>(k, b'). card b' < n) pre \<and> list_all (\<lambda>(k, b'). card b' \<le> n) post"
proof -
  from max_first_split [OF assms(2)] obtain cpre cpost where
    split: "c # cs = cpre @ (ch, n) # cpost"
    and pre: "\<forall>x\<in>set cpre. snd x < n" and post: "\<forall>x\<in>set cpost. snd x \<le> n" by auto
  from split assms(1) have "map (\<lambda>(k, users). (k, card users)) d = cpre @ (ch, n) # cpost"
    by (simp add: counter_of_def)
  then obtain pre e post where d: "d = pre @ e # post"
    and mp: "map (\<lambda>(k, users). (k, card users)) pre = cpre"
    and me: "(\<lambda>(k, users). (k, card users)) e = (ch, n)"
    and mq: "map (\<lambda>(k, users). (k, card users)) post = cpost"
    by (auto simp: map_eq_append_conv map_eq_Cons_conv)
  obtain b where e: "e = (ch, b)" "card b = n" using me by (cases e) auto
  have "list_all (\<lambda>(k, b'). card b' < n) pre"
    using pre unfolding mp [symmetric] by (auto simp: list_all_iff)
  moreover have "list_all (\<lambda>(k, b'). card b' \<le> n) post"
    using post unfolding mq [symmetric] by (auto simp: list_all_iff)
  ultimately show ?thesis using d e by blast
qed

subsection \<open>Ballots are well formed in every run\<close>

lemma cast_keeps_ballot_inv:
  assumes "ballot_inv choices tally"
  shows "ballot_inv (AList.update u c choices)
           (bucket_apply c (insert u)
              (case map_of choices u of
                 None \<Rightarrow> tally
               | Some old \<Rightarrow> bucket_apply old (\<lambda>b. b - {u}) tally))"
proof -
  let ?t1 = "case map_of choices u of None \<Rightarrow> tally
             | Some old \<Rightarrow> bucket_apply old (\<lambda>b. b - {u}) tally"
  from assms have d: "distinct (map fst tally)"
    and a: "\<And>v k. map_of choices v = Some k \<Longrightarrow> \<exists>b. map_of tally k = Some b \<and> v \<in> b"
    and b: "\<And>k b v. map_of tally k = Some b \<Longrightarrow> v \<in> b \<Longrightarrow> map_of choices v = Some k"
    unfolding ballot_inv_def by blast+
  have d1: "distinct (map fst ?t1)"
    using d by (simp add: distinct_bucket_apply split: option.splits)
  have t1: "map_of ?t1 k = Some b \<longleftrightarrow>
      (\<exists>b0. map_of tally k = Some b0 \<and>
         b = (if map_of choices u = Some k then b0 - {u} else b0))" for k b
    using a [of u] by (auto simp: map_of_bucket_apply split: option.splits)
  have a1: "\<exists>b. map_of ?t1 k = Some b \<and> v \<in> b" if "map_of choices v = Some k" "v \<noteq> u" for v k
    using a [OF that(1)] that(2) unfolding t1 by auto
  have b1: "map_of choices v = Some k \<and> v \<noteq> u" if "map_of ?t1 k = Some b" "v \<in> b" for k b v
    using that b unfolding t1 by (auto split: if_splits)
  show ?thesis
    unfolding ballot_inv_def
  proof (intro conjI allI impI)
    show "distinct (map fst (bucket_apply c (insert u) ?t1))"
      using d1 by (rule distinct_bucket_apply)
  next
    fix v k
    assume "map_of (AList.update u c choices) v = Some k"
    then show "\<exists>b. map_of (bucket_apply c (insert u) ?t1) k = Some b \<and> v \<in> b"
      using a1 [of v k]
      by (cases "v = u")
        (auto simp: map_of_bucket_apply AList.update_conv' simp del: map_of_eq_Some_iff
          split: option.splits)
  next
    fix k b v
    assume "map_of (bucket_apply c (insert u) ?t1) k = Some b \<and> v \<in> b"
    then show "map_of (AList.update u c choices) v = Some k"
      using b1 [of k _ v]
      by (cases "v = u")
        (auto simp: map_of_bucket_apply AList.update_conv' simp del: map_of_eq_Some_iff
          split: option.splits if_splits)
  qed
qed

lemma ballot_inv_empty: "ballot_inv [] []"
  by (simp add: ballot_inv_def)

text \<open>What a vote message does to the state, in one update.\<close>

lemma handle_vote_state:
  "fst (handle_vote cfg now t2 user msg s) =
     (if game s \<noteq> None \<and> strip (drop 5 msg) \<noteq> [] then
        s\<lparr>voter_choices := AList.update user (strip (drop 5 msg)) (voter_choices s),
           votes := bucket_apply (strip (drop 5 msg)) (insert user)
              (case map_of (voter_choices s) user of
                 None \<Rightarrow> votes s
               | Some old \<Rightarrow> bucket_apply old (\<lambda>b. b - {user}) (votes s)),
           command_vote_start :=
             (if truthy (command_vote_start s) then command_vote_start s else Some t2)\<rparr>
      else s)"
  by (cases "map_of (voter_choices s) user") (auto simp: handle_vote_def Let_def)

lemma handle_load_state:
  "fst (handle_load games t2 user msg s) =
     (if strip (drop 6 msg) \<in> set games then
        s\<lparr>game_voter_choices := AList.update user (strip (drop 6 msg)) (game_voter_choices s),
           game_votes := bucket_apply (strip (drop 6 msg)) (insert user)
              (case map_of (game_voter_choices s) user of
                 None \<Rightarrow> game_votes s
               | Some old \<Rightarrow> bucket_apply old (\<lambda>b. b - {user}) (game_votes s)),
           load_vote_start :=
             (if truthy (load_vote_start s) then load_vote_start s else Some t2)\<rparr>
      else s)"
  by (cases "map_of (game_voter_choices s) user") (auto simp: handle_load_def Let_def)

lemma handle_status_frame:
  "\<exists>U. fst (handle_status cfg t2 s) = s\<lparr>users_last_activity := U\<rparr>"
proof -
  obtain r s' where rv: "get_required_votes cfg t2 s = (r, s')"
    by (cases "get_required_votes cfg t2 s")
  from required_votes_frame [OF this] obtain U where "s' = s\<lparr>users_last_activity := U\<rparr>" ..
  then have "fst (handle_status cfg t2 s) = s\<lparr>users_last_activity := U\<rparr>"
    by (simp add: handle_status_def rv Let_def split: sum.splits)
  then show ?thesis ..
qed

lemma on_pubmsg_ok:
  assumes "ballots_ok s"
  shows "ballots_ok (fst (on_pubmsg cfg games now t2 user raw s))"
proof -
  let ?s0 = "s\<lparr>users_last_activity := AList.update user now (users_last_activity s)\<rparr>"
  from assms have ok: "ballots_ok ?s0" by (simp add: ballots_ok_def)
  obtain U where st: "fst (handle_status cfg t2 ?s0) = ?s0\<lparr>users_last_activity := U\<rparr>"
    using handle_status_frame by blast
  have "ballots_ok (fst (handle_vote cfg now t2 user (strip raw) ?s0))"
    using ok by (simp add: handle_vote_state ballots_ok_def cast_keeps_ballot_inv)
  moreover have "ballots_ok (fst (handle_load games t2 user (strip raw) ?s0))"
    using ok by (simp add: handle_load_state ballots_ok_def cast_keeps_ballot_inv)
  moreover have "ballots_ok (fst (handle_stopgame t2 user ?s0))"
    using ok by (auto simp: ballots_ok_def handle_stopgame_def Let_def)
  moreover have "ballots_ok (fst (handle_status cfg t2 ?s0))"
    using ok unfolding st by (simp add: ballots_ok_def)
  ultimately show ?thesis
    using ok by (simp add: on_pubmsg_def Let_def handle_replay_def)
qed

lemma load_phase_ok: "ballots_ok s \<Longrightarrow> load_phase cfg now req s = Some (s', ev) \<Longrightarrow> ballots_ok s'"
  by (auto simp: load_phase_def load_game_def Let_def ballots_ok_def ballot_inv_empty
      split: if_splits list.splits prod.splits)

lemma stop_phase_ok: "ballots_ok s \<Longrightarrow> stop_phase cfg now req s = Some (s', ev) \<Longrightarrow> ballots_ok s'"
  by (auto simp: stop_phase_def Let_def ballots_ok_def ballot_inv_empty
      split: if_splits list.splits prod.splits)

lemma command_phase_ok: "ballots_ok s \<Longrightarrow> ballots_ok (fst (command_phase cfg now req s))"
  by (auto simp: command_phase_def Let_def ballots_ok_def ballot_inv_empty
      split: if_splits list.splits prod.splits)

lemma vote_loop_body_ok:
  assumes "ballots_ok s"
  shows "ballots_ok (fst (vote_loop_body cfg now t1 t2 s))"
proof -
  obtain n1 s1 where ac: "get_active_user_count cfg t1 s = (n1, s1)"
    by (cases "get_active_user_count cfg t1 s")
  obtain req s2 where rv: "get_required_votes cfg t2 s1 = (req, s2)"
    by (cases "get_required_votes cfg t2 s1")
  from vote_loop_body_unfold(1) [OF ac rv] obtain U where "s2 = s\<lparr>users_last_activity := U\<rparr>" ..
  with assms have ok: "ballots_ok s2" by (simp add: ballots_ok_def)
  have clear: "ballots_ok (s2\<lparr>votes := [], voter_choices := []\<rparr>)"
    using ok by (simp add: ballots_ok_def ballot_inv_empty)
  show ?thesis
    unfolding vote_loop_body_unfold(2) [OF ac rv]
    using ok clear
    by (auto split: option.splits sum.splits dest: load_phase_ok stop_phase_ok simp: command_phase_ok)
qed

lemma relay_line_ok: "ballots_ok s \<Longrightarrow> ballots_ok (fst (snd (relay_line cfg raw loc s)))"
  by (auto simp: relay_line_def Let_def ballots_ok_def split: prod.splits if_splits)

lemma step_ok: "ballots_ok s \<Longrightarrow> ballots_ok (fst (step cfg i s))"
  by (cases i) (simp_all add: on_pubmsg_ok vote_loop_body_ok relay_line_ok)

lemma run_ok: "ballots_ok s \<Longrightarrow> ballots_ok (run cfg is s)"
  by (induction "is" arbitrary: s) (simp_all add: step_ok)

lemma init_ok: "ballots_ok init_bot"
  by (simp add: ballots_ok_def init_bot_def ballot_inv_empty)

lemma vote_prefix:
  assumes "startswith x ''!vote''"
  shows "x \<noteq> ''!games''" and "\<not> startswith x ''!load ''"
proof -
  from assms have t: "take (Suc (Suc (Suc (Suc (Suc 0))))) x = ''!vote''"
    by (simp add: startswith_def)
  show "x \<noteq> ''!games''" using t by auto
  show "\<not> startswith x ''!load ''"
  proof
    assume "startswith x ''!load ''"
    then have "take (Suc (Suc (Suc (Suc (Suc (Suc 0)))))) x = ''!load ''"
      by (simp add: startswith_def)
    then have "take (Suc (Suc (Suc (Suc (Suc 0))))) (take (Suc (Suc (Suc (Suc (Suc (Suc 0)))))) x)
        = take (Suc (Suc (Suc (Suc (Suc 0))))) ''!load ''" by (rule arg_cong)
    with t show False by simp
  qed
qed

lemma load_prefix:
  assumes "startswith x ''!load ''"
  shows "x \<noteq> ''!games''"
  using assms by (auto simp: startswith_def)

subsection \<open>The session and the activity dictionary in every run\<close>

lemma purge_distinct:
  "distinct (map fst al) \<Longrightarrow> distinct (map fst (fold AList.delete ks al))"
  unfolding fold_delete_filter by (rule distinct_map_filter)

lemma active_count_inv: "session_inv s \<Longrightarrow> session_inv (snd (get_active_user_count cfg t s))"
  by (simp add: session_inv_def get_active_user_count_def Let_def purge_distinct)

lemma required_votes_inv: "session_inv s \<Longrightarrow> session_inv (snd (get_required_votes cfg t s))"
  using active_count_inv [of s cfg t]
  by (simp add: get_required_votes_def split_beta)

lemma handle_status_state: "fst (handle_status cfg t2 s) = snd (get_required_votes cfg t2 s)"
  by (simp add: handle_status_def split_beta Let_def split: sum.splits)

lemma on_pubmsg_inv:
  assumes "session_inv s"
  shows "session_inv (fst (on_pubmsg cfg games now t2 user raw s))"
proof -
  let ?s0 = "s\<lparr>users_last_activity := AList.update user now (users_last_activity s)\<rparr>"
  from assms have ok: "session_inv ?s0" by (simp add: session_inv_def AList.distinct_update)
  have "session_inv (fst (handle_vote cfg now t2 user (strip raw) ?s0))"
    using ok by (simp add: handle_vote_state session_inv_def)
  moreover have "session_inv (fst (handle_load games t2 user (strip raw) ?s0))"
    using ok by (simp add: handle_load_state session_inv_def)
  moreover have "session_inv (fst (handle_stopgame t2 user ?s0))"
    using ok by (auto simp: session_inv_def handle_stopgame_def Let_def)
  moreover have "session_inv (fst (handle_status cfg t2 ?s0))"
    using ok unfolding handle_status_state by (rule required_votes_inv)
  ultimately show ?thesis
    using ok by (simp add: on_pubmsg_def Let_def handle_replay_def)
qed

lemma load_phase_inv: "session_inv s \<Longrightarrow> load_phase cfg now req s = Some (s', ev) \<Longrightarrow> session_inv s'"
  by (auto simp: load_phase_def load_game_def Let_def session_inv_def
      split: if_splits list.splits prod.splits)

lemma stop_phase_inv: "session_inv s \<Longrightarrow> stop_phase cfg now req s = Some (s', ev) \<Longrightarrow> session_inv s'"
  by (auto simp: stop_phase_def Let_def session_inv_def
      split: if_splits list.splits prod.splits)

lemma command_phase_inv: "session_inv s \<Longrightarrow> session_inv (fst (command_phase cfg now req s))"
  by (auto simp: command_phase_def Let_def session_inv_def
      split: if_splits list.splits prod.splits)

lemma vote_loop_body_inv:
  assumes "session_inv s"
  shows "session_inv (fst (vote_loop_body cfg now t1 t2 s))"
proof -
  obtain n1 s1 where ac: "get_active_user_count cfg t1 s = (n1, s1)"
    by (cases "get_active_user_count cfg t1 s")
  obtain req s2 where rv: "get_required_votes cfg t2 s1 = (req, s2)"
    by (cases "get_required_votes cfg t2 s1")
  from active_count_inv [OF assms, of cfg t1] ac have "session_inv s1" by simp
  from required_votes_inv [OF this, of cfg t2] rv have ok: "session_inv s2" by simp
  then have clear: "session_inv (s2\<lparr>votes := [], voter_choices := []\<rparr>)" if "game s2 = None"
    using that by (auto simp: session_inv_def)
  show ?thesis
    unfolding vote_loop_body_unfold(2) [OF ac rv]
    using ok clear
    by (auto split: option.splits sum.splits dest: load_phase_inv stop_phase_inv simp: command_phase_inv)
qed

lemma relay_line_inv: "session_inv s \<Longrightarrow> session_inv (fst (snd (relay_line cfg raw loc s)))"
  by (auto simp: relay_line_def Let_def session_inv_def split: prod.splits if_splits)

lemma step_inv: "session_inv s \<Longrightarrow> session_inv (fst (step cfg i s))"
  by (cases i) (simp_all add: on_pubmsg_inv vote_loop_body_inv relay_line_inv)

lemma run_inv: "session_inv s \<Longrightarrow> session_inv (run cfg is s)"
  by (induction "is" arbitrary: s) (simp_all add: step_inv)

lemma init_inv: "session_inv init_bot"
  by (simp add: session_inv_def init_bot_def)

subsection \<open>The replay buffer in every run\<close>

lemma on_pubmsg_buffer: "replay_buffer (fst (on_pubmsg cfg games now t2 user raw s)) = replay_buffer s"
proof -
  let ?s0 = "s\<lparr>users_last_activity := AList.update user now (users_last_activity s)\<rparr>"
  obtain U where "fst (handle_status cfg t2 ?s0) = ?s0\<lparr>users_last_activity := U\<rparr>"
    using handle_status_frame by blast
  then show ?thesis
    by (simp add: on_pubmsg_def Let_def handle_vote_state handle_load_state handle_stopgame_def
        handle_replay_def)
qed

lemma load_phase_buffer:
  "load_phase cfg now req s = Some (s', ev) \<Longrightarrow> replay_buffer s' = replay_buffer s"
  by (auto simp: load_phase_def load_game_def Let_def split: if_splits list.splits prod.splits)

lemma stop_phase_buffer:
  "stop_phase cfg now req s = Some (s', ev) \<Longrightarrow> replay_buffer s' = replay_buffer s"
  by (auto simp: stop_phase_def Let_def split: if_splits list.splits prod.splits)

lemma command_phase_buffer: "replay_buffer (fst (command_phase cfg now req s)) = replay_buffer s"
  by (auto simp: command_phase_def Let_def split: if_splits list.splits prod.splits)

lemma vote_loop_body_buffer: "replay_buffer (fst (vote_loop_body cfg now t1 t2 s)) = replay_buffer s"
proof -
  obtain n1 s1 where ac: "get_active_user_count cfg t1 s = (n1, s1)"
    by (cases "get_active_user_count cfg t1 s")
  obtain req s2 where rv: "get_required_votes cfg t2 s1 = (req, s2)"
    by (cases "get_required_votes cfg t2 s1")
  from vote_loop_body_unfold(1) [OF ac rv] obtain U where "s2 = s\<lparr>users_last_activity := U\<rparr>" ..
  then have s2: "replay_buffer s2 = replay_buffer s" by simp
  show ?thesis
    unfolding vote_loop_body_unfold(2) [OF ac rv]
    using s2
    by (auto split: option.splits sum.splits dest: load_phase_buffer stop_phase_buffer
        simp: command_phase_buffer)
qed

lemma relay_line_buffer:
  "replay_buffer (fst (snd (relay_line cfg raw loc s))) =
     (if rstrip_crlf raw \<noteq> [] then buffer_append cfg (rstrip_crlf raw) (replay_buffer s)
      else replay_buffer s)"
  by (auto simp: relay_line_def Let_def split: prod.splits)

lemma step_buffer_length:
  "int (length (replay_buffer s)) \<le> BUFFERLENGTH cfg \<Longrightarrow>
   int (length (replay_buffer (fst (step cfg i s)))) \<le> BUFFERLENGTH cfg"
  by (cases i)
    (simp_all add: on_pubmsg_buffer vote_loop_body_buffer relay_line_buffer buffer_append_length)

lemma run_buffer_length:
  "int (length (replay_buffer s)) \<le> BUFFERLENGTH cfg \<Longrightarrow>
   int (length (replay_buffer (run cfg is s))) \<le> BUFFERLENGTH cfg"
  by (induction "is" arbitrary: s) (simp_all add: step_buffer_length)

subsection \<open>Quorum\<close>

text \<open>
  Claim C4. The required number of votes is \<open>max(1, floor(p) + 1)\<close> for the float product
  \<open>p\<close> of the active count and the ratio, whenever that product is finite: the truncation
  of \<^verbatim>\<open>int()\<close> and the floor differ only where the maximum with 1 hides the difference.
  With no active participant it is 1 for every finite ratio. With the ratio 1.0, in any of
  its forms \<open>2^k * 2^(-k)\<close>, it is the active count plus one for every count below \<open>2^53\<close>,
  the counts that a float holds exactly. A returned value is never below 1.
  \<^verbatim>\<open>get_required_votes\<close> returns this result for the count that \<^verbatim>\<open>get_active_user_count\<close>
  returns.
\<close>

theorem required_votes_formula:
  "(float_of_nat n = Inr a \<and> float_mul a r = Finite m e \<longrightarrow>
      required_votes_of n r = Inr (max 1 (\<lfloor>float_val m e\<rfloor> + 1)))
   \<and> required_votes_of 0 (Finite m' e') = Inr 1
   \<and> (n < 2 ^ 53 \<and> k \<le> 52 \<longrightarrow> required_votes_of n (Finite (2 ^ k) (- int k)) = Inr (int n + 1))
   \<and> (required_votes_of n r = Inr v \<longrightarrow> 1 \<le> v)
   \<and> fst (get_required_votes cfg now s) =
       required_votes_of (fst (get_active_user_count cfg now s)) (MAJORITY_RATIO cfg)"
proof (intro conjI impI)
  assume "float_of_nat n = Inr a \<and> float_mul a r = Finite m e"
  then have a: "float_of_nat n = Inr a" and p: "float_mul a r = Finite m e" by simp_all
  obtain t where t: "int_of_float (Finite m e) = Inr t" by (simp add: int_of_float_def)
  from int_of_float_quorum [OF t] have "max 1 (t + 1) = max 1 (\<lfloor>float_val m e\<rfloor> + 1)" .
  then show "required_votes_of n r = Inr (max 1 (\<lfloor>float_val m e\<rfloor> + 1))"
    by (simp add: required_votes_of_def a p t)
next
  show "required_votes_of 0 (Finite m' e') = Inr 1" by (rule required_votes_none_active)
next
  assume "n < 2 ^ 53 \<and> k \<le> 52"
  then show "required_votes_of n (Finite (2 ^ k) (- int k)) = Inr (int n + 1)"
    by (simp add: required_votes_ratio_one)
next
  assume "required_votes_of n r = Inr v"
  then show "1 \<le> v" by (auto simp: required_votes_of_def split: sum.splits)
next
  show "fst (get_required_votes cfg now s) =
      required_votes_of (fst (get_active_user_count cfg now s)) (MAJORITY_RATIO cfg)"
    by (simp add: get_required_votes_def split_beta)
qed

text \<open>Ten active participants at ratio 0.7 need 8 votes (the float product is 7.0, the
  exact one is below 7), fifty at ratio 0.58 need 29 (the float product is below 29), three
  at ratio 0.5 need 2.\<close>

theorem required_votes_formula_witness:
  "float_of_nat 10 = Inr (Finite 10 0)
   \<and> float_mul (Finite 10 0) ratio_07 = Finite 7881299347898368 (- 50)
   \<and> required_votes_of 10 ratio_07 = Inr 8
   \<and> float_of_nat 50 = Inr (Finite 50 0)
   \<and> float_mul (Finite 50 0) ratio_058 = Finite 8162774324609023 (- 48)
   \<and> required_votes_of 50 ratio_058 = Inr 29
   \<and> required_votes_of 3 (Finite 1 (- 1)) = Inr 2
   \<and> required_votes_of 0 ratio_07 = Inr 1
   \<and> required_votes_of 4 (Finite (2 ^ 52) (- 52)) = Inr 5"
proof -
  have a: "float_of_nat 10 = Inr (Finite 10 0)"
    "float_mul (Finite 10 0) ratio_07 = Finite 7881299347898368 (- 50)"
    "float_of_nat 50 = Inr (Finite 50 0)"
    "float_mul (Finite 50 0) ratio_058 = Finite 8162774324609023 (- 48)"
    "required_votes_of 3 (Finite 1 (- 1)) = Inr 2"
    by code_simp+
  have f: "\<lfloor>float_val 7881299347898368 (- 50)\<rfloor> = 7" "\<lfloor>float_val 8162774324609023 (- 48)\<rfloor> = 28"
    by (simp_all add: float_val_def)
  from required_votes_formula [where n = 10 and a = "Finite 10 0" and r = ratio_07
      and m = 7881299347898368 and e = "- 50"] a(1,2) f(1)
  have 1: "required_votes_of 10 ratio_07 = Inr 8" by simp
  from required_votes_formula [where n = 50 and a = "Finite 50 0" and r = ratio_058
      and m = 8162774324609023 and e = "- 48"] a(3,4) f(2)
  have 2: "required_votes_of 50 ratio_058 = Inr 29" by simp
  from required_votes_formula [where m' = 6305039478318694 and e' = "- 53"]
  have 3: "required_votes_of 0 ratio_07 = Inr 1" by (simp add: ratio_07_def)
  have "(4::nat) < 2 ^ 53 \<and> (52::nat) \<le> 52" by simp
  with required_votes_formula [where n = 4 and k = 52]
  have 4: "required_votes_of 4 (Finite (2 ^ 52) (- 52)) = Inr 5" by simp
  from a 1 2 3 4 show ?thesis by simp
qed

text \<open>With an infinite or undefined ratio, or a product beyond the range of a float, the
  arithmetic raises instead of returning a number.\<close>

lemma required_votes_raises:
  "required_votes_of 0 Infinity = Inl ValueError
   \<and> required_votes_of 2 Infinity = Inl OverflowError
   \<and> required_votes_of 0 NaN = Inl ValueError
   \<and> required_votes_of 2 (Finite (2 ^ 53 - 1) 971) = Inl OverflowError"
  by code_simp

subsection \<open>Activity\<close>

text \<open>
  Claim C8. A call of the active-count query at time \<open>now\<close> on a dictionary (an association
  list with distinct keys) keeps exactly the records whose time stamp is not below
  \<open>now - ACTIVE_DECAY\<close>, returns the number of kept records whose key is not the bot's own
  nick, and a second call at the same \<open>now\<close> on the resulting state returns the same count
  and the same state. The dictionary of every state that a run reaches from the initial
  state has distinct keys.
\<close>

theorem active_count_purges_and_counts:
  assumes "distinct (map fst (users_last_activity s))"
  shows "get_active_user_count cfg now s =
           (length (filter (\<lambda>(u, ts). u \<noteq> BOT_NICK cfg)
              (filter (\<lambda>(u, ts). \<not> ts < now - of_int (ACTIVE_DECAY cfg)) (users_last_activity s))),
            s\<lparr>users_last_activity :=
                filter (\<lambda>(u, ts). \<not> ts < now - of_int (ACTIVE_DECAY cfg)) (users_last_activity s)\<rparr>)
         \<and> get_active_user_count cfg now (snd (get_active_user_count cfg now s)) =
             get_active_user_count cfg now s
         \<and> distinct (map fst (users_last_activity (run cfg inputs init_bot)))"
proof -
  have "session_inv (run cfg inputs init_bot)" using init_inv by (rule run_inv)
  then have reach: "distinct (map fst (users_last_activity (run cfg inputs init_bot)))"
    by (simp add: session_inv_def)
  let ?keep = "\<lambda>(u, ts). \<not> ts < now - of_int (ACTIVE_DECAY cfg)"
  let ?al = "users_last_activity s"
  have purge: "fold AList.delete (map fst (filter (\<lambda>p. snd p < now - of_int (ACTIVE_DECAY cfg)) al)) al
      = filter (\<lambda>p. \<not> snd p < now - of_int (ACTIVE_DECAY cfg)) al"
    if "distinct (map fst al)" for al :: "(string \<times> real) list"
    using that by (rule purge_filter)
  have first: "get_active_user_count cfg now s =
      (length (filter (\<lambda>(u, ts). u \<noteq> BOT_NICK cfg) (filter ?keep ?al)),
       s\<lparr>users_last_activity := filter ?keep ?al\<rparr>)"
    by (simp add: get_active_user_count_def Let_def purge [OF assms] case_prod_unfold comp_def)
  have "distinct (map fst (filter ?keep ?al))"
    using assms by (rule distinct_map_filter)
  then have "get_active_user_count cfg now (s\<lparr>users_last_activity := filter ?keep ?al\<rparr>) =
      (length (filter (\<lambda>(u, ts). u \<noteq> BOT_NICK cfg) (filter ?keep ?al)),
       s\<lparr>users_last_activity := filter ?keep ?al\<rparr>)"
    by (simp add: get_active_user_count_def Let_def purge case_prod_unfold comp_def)
  with first reach show ?thesis by simp
qed

theorem active_count_purges_and_counts_witness:
  "distinct (map fst [(''al'', 10::real), (''informbot'', 400), (''bo'', 350)])
   \<and> get_active_user_count demo_cfg 400
       (init_bot\<lparr>users_last_activity := [(''al'', 10), (''informbot'', 400), (''bo'', 350)]\<rparr>) =
     (1, init_bot\<lparr>users_last_activity := [(''informbot'', 400), (''bo'', 350)]\<rparr>)"
  using active_count_purges_and_counts
    [of "init_bot\<lparr>users_last_activity := [(''al'', 10), (''informbot'', 400), (''bo'', 350)]\<rparr>"
      demo_cfg 400]
  by (simp add: demo_cfg_def)

subsection \<open>Messages\<close>

text \<open>
  Claim C10. A channel message whose text is exactly \<open>!load\<close> matches no branch of the
  handler: \<open>!load\<close> followed by a space is required for a load vote. The handler sends
  nothing and changes nothing but the sender's last-activity time stamp.
\<close>

theorem bare_load_is_ignored:
  "on_pubmsg cfg games now t2 user ''!load'' s =
     (s\<lparr>users_last_activity := AList.update user now (users_last_activity s)\<rparr>, [])"
  by (simp add: on_pubmsg_def strip_def is_space_def lower_def lower_char_def startswith_def)

subsection \<open>Resolution\<close>

text \<open>
  Claim C1. Let \<open>req\<close> be the required number of votes that the tick computes, and \<open>s2\<close>
  the state after its two purges of the activity records. A resolution takes place in
  three situations. (1) The load timer is due and there is a load vote. The leading entry
  \<open>(g, n)\<close> that the tick takes from the counter is the entry of the tally with the highest
  count, the earliest of them: every bucket before it has fewer than \<open>n\<close> voters and no
  bucket after it has more. The tick calls \<^verbatim>\<open>load_game(g)\<close> once if \<open>req \<le> n\<close> (the call
  stops a running game first) and sends only the no-majority notice otherwise. (2) No load
  resolution, the stop timer is due, a game runs and there is a stop vote: the tick stops
  the game once if \<open>req\<close> is at most the number of stop voters, and sends only the notice
  otherwise. (3) Neither of the two, a game runs, the command timer is due and there is a
  command vote: with the leading entry \<open>(cmd, m)\<close>, again the earliest bucket of the highest
  count, the tick sends \<open>cmd\<close> once if \<open>req \<le> m\<close>, and only the notice otherwise. In each
  case and in both branches the resolved ballot is empty afterwards and its start time is
  \<open>None\<close>. The test for a running game in (2) and (3) excludes no vote: in every state
  that a run reaches from the initial state, a recorded command vote or stop vote implies
  that a game is loaded.
\<close>

theorem resolution_dispatches_once_and_clears:
  assumes ac: "get_active_user_count cfg t1 s = (n1, s1)"
    and rv: "get_required_votes cfg t2 s1 = (Inr req, s2)"
  shows
    "(due cfg now (load_vote_start s) \<and> counter_of (game_votes s) = c # cs
        \<and> max_first c cs = (g, n) \<longrightarrow>
      (\<exists>pre b post. game_votes s = pre @ (g, b) # post \<and> card b = n
         \<and> list_all (\<lambda>(k, b'). card b' < n) pre \<and> list_all (\<lambda>(k, b'). card b' \<le> n) post)
      \<and> vote_loop_body cfg now t1 t2 s =
        (if req \<le> int n then
           (s2\<lparr>game := Some (path_join (GAME_DIR cfg) g), game_votes := [],
                game_voter_choices := [], votes := [], voter_choices := [],
                stopgame_voters := {}, load_vote_start := None\<rparr>,
            (if game s \<noteq> None then [GameStop, Privmsg ''Previous game stopped.''] else [])
            @ [GameStart (path_join (GAME_DIR cfg) g), Privmsg (''Loading game: '' @ g)])
         else
           (s2\<lparr>game_votes := [], game_voter_choices := [], votes := [], voter_choices := [],
                stopgame_voters := {}, load_vote_start := None\<rparr>,
            [Privmsg ''No majority to load game. Votes cleared.''])))
     \<and> (\<not> (due cfg now (load_vote_start s) \<and> game_votes s \<noteq> [])
        \<and> due cfg now (stopgame_vote_start s) \<and> game s \<noteq> None \<and> stopgame_voters s \<noteq> {} \<longrightarrow>
      vote_loop_body cfg now t1 t2 s =
        (if req \<le> int (card (stopgame_voters s)) then
           (s2\<lparr>game := None, votes := [], voter_choices := [], game_votes := [],
                game_voter_choices := [], stopgame_voters := {}, stopgame_vote_start := None\<rparr>,
            [GameStop, Privmsg ''Game stopped by vote.''])
         else
           (s2\<lparr>votes := [], voter_choices := [], game_votes := [], game_voter_choices := [],
                stopgame_voters := {}, stopgame_vote_start := None\<rparr>,
            [Privmsg ''No majority to stop game. Votes cleared.''])))
     \<and> (\<not> (due cfg now (load_vote_start s) \<and> game_votes s \<noteq> [])
        \<and> \<not> (due cfg now (stopgame_vote_start s) \<and> stopgame_voters s \<noteq> {})
        \<and> game s \<noteq> None \<and> due cfg now (command_vote_start s)
        \<and> counter_of (votes s) = c' # cs' \<and> max_first c' cs' = (cmd, m) \<longrightarrow>
      (\<exists>pre b post. votes s = pre @ (cmd, b) # post \<and> card b = m
         \<and> list_all (\<lambda>(k, b'). card b' < m) pre \<and> list_all (\<lambda>(k, b'). card b' \<le> m) post)
      \<and> vote_loop_body cfg now t1 t2 s =
        (if req \<le> int m then
           (s2\<lparr>votes := [], voter_choices := [], command_vote_start := None\<rparr>,
            [GameSend cmd, Privmsg (''> '' @ cmd)])
         else
           (s2\<lparr>votes := [], voter_choices := [], command_vote_start := None\<rparr>,
            [Privmsg ''No majority for command. Votes cleared.''])))
     \<and> (votes (run cfg inputs init_bot) \<noteq> [] \<or> stopgame_voters (run cfg inputs init_bot) \<noteq> {}
          \<longrightarrow> game (run cfg inputs init_bot) \<noteq> None)"
proof -
  have "session_inv (run cfg inputs init_bot)" using init_inv by (rule run_inv)
  then have reach: "votes (run cfg inputs init_bot) \<noteq> [] \<or> stopgame_voters (run cfg inputs init_bot) \<noteq> {}
      \<longrightarrow> game (run cfg inputs init_bot) \<noteq> None"
    by (simp add: session_inv_def)
  from vote_loop_body_unfold(1) [OF ac rv] obtain U where s2: "s2 = s\<lparr>users_last_activity := U\<rparr>" ..
  have body: "vote_loop_body cfg now t1 t2 s =
      (case load_phase cfg now req s2 of
         Some r \<Rightarrow> r
       | None \<Rightarrow>
          (case stop_phase cfg now req s2 of
             Some r \<Rightarrow> r
           | None \<Rightarrow>
               if game s2 = None then (s2\<lparr>votes := [], voter_choices := []\<rparr>, [])
               else command_phase cfg now req s2))"
    using vote_loop_body_unfold(2) [OF ac rv, of now] by simp
  have load_none: "load_phase cfg now req s2 = None"
    if "\<not> (due cfg now (load_vote_start s) \<and> game_votes s \<noteq> [])"
    using that by (auto simp: load_phase_def s2 counter_of_def split: list.splits)
  have stop_none: "stop_phase cfg now req s2 = None"
    if "\<not> (due cfg now (stopgame_vote_start s) \<and> stopgame_voters s \<noteq> {})"
    using that by (auto simp: stop_phase_def s2)
  have load: "vote_loop_body cfg now t1 t2 s =
        (if req \<le> int n then
           (s2\<lparr>game := Some (path_join (GAME_DIR cfg) g), game_votes := [],
                game_voter_choices := [], votes := [], voter_choices := [],
                stopgame_voters := {}, load_vote_start := None\<rparr>,
            (if game s \<noteq> None then [GameStop, Privmsg ''Previous game stopped.''] else [])
            @ [GameStart (path_join (GAME_DIR cfg) g), Privmsg (''Loading game: '' @ g)])
         else
           (s2\<lparr>game_votes := [], game_voter_choices := [], votes := [], voter_choices := [],
                stopgame_voters := {}, load_vote_start := None\<rparr>,
            [Privmsg ''No majority to load game. Votes cleared.'']))"
    if "due cfg now (load_vote_start s) \<and> counter_of (game_votes s) = c # cs
        \<and> max_first c cs = (g, n)"
    using that unfolding body by (simp add: load_phase_def load_game_def s2 Let_def)
  have load_leading: "\<exists>pre b post. game_votes s = pre @ (g, b) # post \<and> card b = n
         \<and> list_all (\<lambda>(k, b'). card b' < n) pre \<and> list_all (\<lambda>(k, b'). card b' \<le> n) post"
    if a: "due cfg now (load_vote_start s) \<and> counter_of (game_votes s) = c # cs
        \<and> max_first c cs = (g, n)"
  proof -
    from a have "counter_of (game_votes s) = c # cs" and "max_first c cs = (g, n)" by blast+
    then show ?thesis by (rule leading_entry)
  qed
  have stop: "vote_loop_body cfg now t1 t2 s =
        (if req \<le> int (card (stopgame_voters s)) then
           (s2\<lparr>game := None, votes := [], voter_choices := [], game_votes := [],
                game_voter_choices := [], stopgame_voters := {}, stopgame_vote_start := None\<rparr>,
            [GameStop, Privmsg ''Game stopped by vote.''])
         else
           (s2\<lparr>votes := [], voter_choices := [], game_votes := [], game_voter_choices := [],
                stopgame_voters := {}, stopgame_vote_start := None\<rparr>,
            [Privmsg ''No majority to stop game. Votes cleared.'']))"
    if a: "\<not> (due cfg now (load_vote_start s) \<and> game_votes s \<noteq> [])
        \<and> due cfg now (stopgame_vote_start s) \<and> game s \<noteq> None \<and> stopgame_voters s \<noteq> {}"
  proof -
    from a have "load_phase cfg now req s2 = None" using load_none by blast
    with a show ?thesis unfolding body by (simp add: stop_phase_def s2 Let_def)
  qed
  have command: "vote_loop_body cfg now t1 t2 s =
        (if req \<le> int m then
           (s2\<lparr>votes := [], voter_choices := [], command_vote_start := None\<rparr>,
            [GameSend cmd, Privmsg (''> '' @ cmd)])
         else
           (s2\<lparr>votes := [], voter_choices := [], command_vote_start := None\<rparr>,
            [Privmsg ''No majority for command. Votes cleared.'']))"
    if a: "\<not> (due cfg now (load_vote_start s) \<and> game_votes s \<noteq> [])
        \<and> \<not> (due cfg now (stopgame_vote_start s) \<and> stopgame_voters s \<noteq> {})
        \<and> game s \<noteq> None \<and> due cfg now (command_vote_start s)
        \<and> counter_of (votes s) = c' # cs' \<and> max_first c' cs' = (cmd, m)"
  proof -
    from a have "load_phase cfg now req s2 = None" "stop_phase cfg now req s2 = None"
      using load_none stop_none by blast+
    with a show ?thesis unfolding body by (simp add: command_phase_def s2 Let_def)
  qed
  have command_leading: "\<exists>pre b post. votes s = pre @ (cmd, b) # post \<and> card b = m
         \<and> list_all (\<lambda>(k, b'). card b' < m) pre \<and> list_all (\<lambda>(k, b'). card b' \<le> m) post"
    if a: "\<not> (due cfg now (load_vote_start s) \<and> game_votes s \<noteq> [])
        \<and> \<not> (due cfg now (stopgame_vote_start s) \<and> stopgame_voters s \<noteq> {})
        \<and> game s \<noteq> None \<and> due cfg now (command_vote_start s)
        \<and> counter_of (votes s) = c' # cs' \<and> max_first c' cs' = (cmd, m)"
  proof -
    from a have "counter_of (votes s) = c' # cs'" and "max_first c' cs' = (cmd, m)" by blast+
    then show ?thesis by (rule leading_entry)
  qed
  from reach load load_leading stop command command_leading show ?thesis by blast
qed

text \<open>The four runs: a load vote won by the second bucket, a stop vote, a command vote won
  by the second bucket, and a command vote without a majority.\<close>

theorem resolution_dispatches_once_and_clears_witness:
  "snd (vote_loop_body demo_cfg 31 31 31 (run demo_cfg load_majority init_bot)) =
      [GameStart ''games/advent'', Privmsg ''Loading game: advent'']
   \<and> load_vote_start (fst (vote_loop_body demo_cfg 31 31 31 (run demo_cfg load_majority init_bot))) = None
   \<and> (\<exists>pre b post. game_votes (run demo_cfg load_majority init_bot) = pre @ (''advent'', b) # post
         \<and> card b = 2 \<and> list_all (\<lambda>(k, b'). card b' < 2) pre
         \<and> list_all (\<lambda>(k, b'). card b' \<le> 2) post)
   \<and> snd (vote_loop_body demo_cfg 70 70 70 (run demo_cfg stop_pending init_bot)) =
      [GameStop, Privmsg ''Game stopped by vote.'']
   \<and> stopgame_vote_start (fst (vote_loop_body demo_cfg 70 70 70 (run demo_cfg stop_pending init_bot))) = None
   \<and> snd (vote_loop_body demo_cfg 70 70 70 (run demo_cfg command_pending init_bot)) =
      [GameSend ''north'', Privmsg ''> north'']
   \<and> command_vote_start (fst (vote_loop_body demo_cfg 70 70 70 (run demo_cfg command_pending init_bot))) = None
   \<and> (\<exists>pre b post. votes (run demo_cfg command_pending init_bot) = pre @ (''north'', b) # post
         \<and> card b = 2 \<and> list_all (\<lambda>(k, b'). card b' < 2) pre
         \<and> list_all (\<lambda>(k, b'). card b' \<le> 2) post)
   \<and> snd (vote_loop_body demo_cfg 70 70 70 (run demo_cfg command_split init_bot)) =
      [Privmsg ''No majority for command. Votes cleared.'']
   \<and> votes (fst (vote_loop_body demo_cfg 70 70 70 (run demo_cfg command_split init_bot))) = []
   \<and> votes (run demo_cfg command_pending init_bot) \<noteq> []
   \<and> game (run demo_cfg command_pending init_bot) \<noteq> None"
proof -
  let ?l = "run demo_cfg load_majority init_bot"
  let ?s = "run demo_cfg stop_pending init_bot"
  let ?c = "run demo_cfg command_pending init_bot"
  let ?d = "run demo_cfg command_split init_bot"
  have l1: "get_active_user_count demo_cfg 31 ?l = (3, ?l)" by code_simp
  have l2: "get_required_votes demo_cfg 31 ?l = (Inr 2, ?l)" by code_simp
  have l3: "due demo_cfg 31 (load_vote_start ?l)
      \<and> counter_of (game_votes ?l) = (''zork'', 1) # [(''advent'', 2)]
      \<and> max_first (''zork'', 1) [(''advent'', 2)] = (''advent'', 2)" by code_simp
  have l4: "game ?l = None" "path_join (GAME_DIR demo_cfg) ''advent'' = ''games/advent''"
    by code_simp+
  have s1: "get_active_user_count demo_cfg 70 ?s = (1, ?s)" by code_simp
  have s2: "get_required_votes demo_cfg 70 ?s = (Inr 1, ?s)" by code_simp
  have s3: "\<not> (due demo_cfg 70 (load_vote_start ?s) \<and> game_votes ?s \<noteq> [])
      \<and> due demo_cfg 70 (stopgame_vote_start ?s) \<and> game ?s \<noteq> None \<and> stopgame_voters ?s \<noteq> {}"
    by code_simp
  have s4: "card (stopgame_voters ?s) = 1" by code_simp
  have c1: "get_active_user_count demo_cfg 70 ?c = (3, ?c)" by code_simp
  have c2: "get_required_votes demo_cfg 70 ?c = (Inr 2, ?c)" by code_simp
  have c3: "\<not> (due demo_cfg 70 (load_vote_start ?c) \<and> game_votes ?c \<noteq> [])
      \<and> \<not> (due demo_cfg 70 (stopgame_vote_start ?c) \<and> stopgame_voters ?c \<noteq> {})
      \<and> game ?c \<noteq> None \<and> due demo_cfg 70 (command_vote_start ?c)
      \<and> counter_of (votes ?c) = (''south'', 1) # [(''north'', 2)]
      \<and> max_first (''south'', 1) [(''north'', 2)] = (''north'', 2)" by code_simp
  have d1: "get_active_user_count demo_cfg 70 ?d = (3, ?d)" by code_simp
  have d2: "get_required_votes demo_cfg 70 ?d = (Inr 2, ?d)" by code_simp
  have d3: "\<not> (due demo_cfg 70 (load_vote_start ?d) \<and> game_votes ?d \<noteq> [])
      \<and> \<not> (due demo_cfg 70 (stopgame_vote_start ?d) \<and> stopgame_voters ?d \<noteq> {})
      \<and> game ?d \<noteq> None \<and> due demo_cfg 70 (command_vote_start ?d)
      \<and> counter_of (votes ?d) = (''north'', 1) # [(''south'', 1)]
      \<and> max_first (''north'', 1) [(''south'', 1)] = (''north'', 1)" by code_simp
  note l = resolution_dispatches_once_and_clears [OF l1 l2, where now = 31 and c = "(''zork'', 1)"
      and cs = "[(''advent'', 2)]" and g = "''advent''" and n = 2]
  from l l3 l4
  have "snd (vote_loop_body demo_cfg 31 31 31 ?l) =
      [GameStart ''games/advent'', Privmsg ''Loading game: advent'']
    \<and> load_vote_start (fst (vote_loop_body demo_cfg 31 31 31 ?l)) = None" by simp
  moreover from l l3
  have "\<exists>pre b post. game_votes ?l = pre @ (''advent'', b) # post
         \<and> card b = 2 \<and> list_all (\<lambda>(k, b'). card b' < 2) pre
         \<and> list_all (\<lambda>(k, b'). card b' \<le> 2) post" by blast
  moreover from resolution_dispatches_once_and_clears [OF s1 s2, where now = 70] s3 s4
  have "snd (vote_loop_body demo_cfg 70 70 70 ?s) = [GameStop, Privmsg ''Game stopped by vote.'']
    \<and> stopgame_vote_start (fst (vote_loop_body demo_cfg 70 70 70 ?s)) = None" by simp
  moreover note c = resolution_dispatches_once_and_clears [OF c1 c2, where now = 70
      and c' = "(''south'', 1)" and cs' = "[(''north'', 2)]" and cmd = "''north''" and m = 2]
  moreover from c c3
  have "snd (vote_loop_body demo_cfg 70 70 70 ?c) = [GameSend ''north'', Privmsg ''> north'']
    \<and> command_vote_start (fst (vote_loop_body demo_cfg 70 70 70 ?c)) = None" by simp
  moreover from c c3
  have "\<exists>pre b post. votes ?c = pre @ (''north'', b) # post
         \<and> card b = 2 \<and> list_all (\<lambda>(k, b'). card b' < 2) pre
         \<and> list_all (\<lambda>(k, b'). card b' \<le> 2) post" by blast
  moreover from resolution_dispatches_once_and_clears [OF d1 d2, where now = 70
      and c' = "(''north'', 1)" and cs' = "[(''south'', 1)]" and cmd = "''north''" and m = 1] d3
  have "snd (vote_loop_body demo_cfg 70 70 70 ?d) = [Privmsg ''No majority for command. Votes cleared.'']
    \<and> votes (fst (vote_loop_body demo_cfg 70 70 70 ?d)) = []" by simp
  moreover have v: "votes ?c \<noteq> []" by code_simp
  moreover from resolution_dispatches_once_and_clears [OF c1 c2, where inputs = command_pending] v
  have "game ?c \<noteq> None" by blast
  ultimately show ?thesis by blast
qed

subsection \<open>Ties\<close>

text \<open>
  Claim C7. When a command or load resolution takes place, the resolved choice is an entry
  of the tally such that every entry before it has strictly fewer voters and no entry after
  it has more: among tied maxima, the earliest entry. The order of the entries is the order
  in which the buckets were created: touching an existing bucket leaves the order of keys
  unchanged and a new bucket goes to the end. The tie is resolved like any other leading
  choice, by the comparison with the required number of votes.
\<close>

theorem tie_goes_to_earliest_bucket:
  "(due cfg now (command_vote_start s) \<and> votes s \<noteq> [] \<longrightarrow>
      (\<exists>pre ch b post. votes s = pre @ (ch, b) # post
         \<and> list_all (\<lambda>(k, b'). card b' < card b) pre
         \<and> list_all (\<lambda>(k, b'). card b' \<le> card b) post
         \<and> snd (command_phase cfg now req s) =
             (if req \<le> int (card b) then [GameSend ch, Privmsg (''> '' @ ch)]
              else [Privmsg ''No majority for command. Votes cleared.''])))
   \<and> (due cfg now (load_vote_start s) \<and> game_votes s \<noteq> [] \<longrightarrow>
      (\<exists>pre ch b post. game_votes s = pre @ (ch, b) # post
         \<and> list_all (\<lambda>(k, b'). card b' < card b) pre
         \<and> list_all (\<lambda>(k, b'). card b' \<le> card b) post
         \<and> map_option snd (load_phase cfg now req s) =
             Some (if req \<le> int (card b)
                   then snd (load_game cfg ch s) @ [Privmsg (''Loading game: '' @ ch)]
                   else [Privmsg ''No majority to load game. Votes cleared.''])))
   \<and> map fst (bucket_apply k f d) = (if k \<in> set (map fst d) then map fst d else map fst d @ [k])"
proof (intro conjI impI)
  assume a: "due cfg now (command_vote_start s) \<and> votes s \<noteq> []"
  then obtain c cs where c: "counter_of (votes s) = c # cs"
    by (cases "counter_of (votes s)") (auto simp: counter_of_def)
  obtain ch n where m: "max_first c cs = (ch, n)" by (cases "max_first c cs")
  from leading_entry [OF c m] obtain pre b post where
    "votes s = pre @ (ch, b) # post" "card b = n"
    "list_all (\<lambda>(k, b'). card b' < n) pre" "list_all (\<lambda>(k, b'). card b' \<le> n) post" by blast
  moreover have "snd (command_phase cfg now req s) =
      (if req \<le> int n then [GameSend ch, Privmsg (''> '' @ ch)]
       else [Privmsg ''No majority for command. Votes cleared.''])"
    using a c m by (simp add: command_phase_def Let_def)
  ultimately show "\<exists>pre ch b post. votes s = pre @ (ch, b) # post
         \<and> list_all (\<lambda>(k, b'). card b' < card b) pre
         \<and> list_all (\<lambda>(k, b'). card b' \<le> card b) post
         \<and> snd (command_phase cfg now req s) =
             (if req \<le> int (card b) then [GameSend ch, Privmsg (''> '' @ ch)]
              else [Privmsg ''No majority for command. Votes cleared.''])"
    by blast
next
  assume a: "due cfg now (load_vote_start s) \<and> game_votes s \<noteq> []"
  then obtain c cs where c: "counter_of (game_votes s) = c # cs"
    by (cases "counter_of (game_votes s)") (auto simp: counter_of_def)
  obtain ch n where m: "max_first c cs = (ch, n)" by (cases "max_first c cs")
  from leading_entry [OF c m] obtain pre b post where
    "game_votes s = pre @ (ch, b) # post" "card b = n"
    "list_all (\<lambda>(k, b'). card b' < n) pre" "list_all (\<lambda>(k, b'). card b' \<le> n) post" by blast
  moreover have "map_option snd (load_phase cfg now req s) =
      Some (if req \<le> int n
            then snd (load_game cfg ch s) @ [Privmsg (''Loading game: '' @ ch)]
            else [Privmsg ''No majority to load game. Votes cleared.''])"
    using a c m by (simp add: load_phase_def Let_def split_beta)
  ultimately show "\<exists>pre ch b post. game_votes s = pre @ (ch, b) # post
         \<and> list_all (\<lambda>(k, b'). card b' < card b) pre
         \<and> list_all (\<lambda>(k, b'). card b' \<le> card b) post
         \<and> map_option snd (load_phase cfg now req s) =
             Some (if req \<le> int (card b)
                   then snd (load_game cfg ch s) @ [Privmsg (''Loading game: '' @ ch)]
                   else [Privmsg ''No majority to load game. Votes cleared.''])"
    by blast
next
  show "map fst (bucket_apply k f d) = (if k \<in> set (map fst d) then map fst d else map fst d @ [k])"
    by (rule bucket_apply_keys)
qed


theorem tie_goes_to_earliest_bucket_witness:
  "due demo_cfg 70 (command_vote_start (run demo_cfg tie_run init_bot))
   \<and> votes (run demo_cfg tie_run init_bot) =
       [] @ (''south'', {''cy'', ''al''}) # [(''north'', {''di'', ''bo''})]
   \<and> (\<exists>pre ch b post. votes (run demo_cfg tie_run init_bot) = pre @ (ch, b) # post
         \<and> list_all (\<lambda>(k, b'). card b' < card b) pre
         \<and> list_all (\<lambda>(k, b'). card b' \<le> card b) post
         \<and> snd (command_phase demo_cfg 70 2 (run demo_cfg tie_run init_bot)) =
             (if 2 \<le> int (card b) then [GameSend ch, Privmsg (''> '' @ ch)]
              else [Privmsg ''No majority for command. Votes cleared.'']))
   \<and> snd (command_phase demo_cfg 70 2 (run demo_cfg tie_run init_bot)) =
       [GameSend ''south'', Privmsg ''> south'']
   \<and> due demo_cfg 32 (load_vote_start (run demo_cfg load_tie init_bot))
   \<and> game_votes (run demo_cfg load_tie init_bot) =
       [] @ (''zork'', {''al''}) # [(''advent'', {''bo''})]
   \<and> (\<exists>pre ch b post. game_votes (run demo_cfg load_tie init_bot) = pre @ (ch, b) # post
         \<and> list_all (\<lambda>(k, b'). card b' < card b) pre
         \<and> list_all (\<lambda>(k, b'). card b' \<le> card b) post
         \<and> map_option snd (load_phase demo_cfg 32 1 (run demo_cfg load_tie init_bot)) =
             Some (if 1 \<le> int (card b)
                   then snd (load_game demo_cfg ch (run demo_cfg load_tie init_bot))
                        @ [Privmsg (''Loading game: '' @ ch)]
                   else [Privmsg ''No majority to load game. Votes cleared.'']))
   \<and> map_option snd (load_phase demo_cfg 32 1 (run demo_cfg load_tie init_bot)) =
       Some [GameStart ''games/zork'', Privmsg ''Loading game: zork'']
   \<and> map fst (bucket_apply ''east'' (insert ''ed'') (votes (run demo_cfg tie_run init_bot))) =
       [''south'', ''north'', ''east'']"
proof -
  let ?t = "run demo_cfg tie_run init_bot"
  let ?l = "run demo_cfg load_tie init_bot"
  have t: "due demo_cfg 70 (command_vote_start ?t)"
    "votes ?t = [] @ (''south'', {''cy'', ''al''}) # [(''north'', {''di'', ''bo''})]"
    "snd (command_phase demo_cfg 70 2 ?t) = [GameSend ''south'', Privmsg ''> south'']"
    by code_simp+
  have l: "due demo_cfg 32 (load_vote_start ?l)"
    "game_votes ?l = [] @ (''zork'', {''al''}) # [(''advent'', {''bo''})]"
    "map_option snd (load_phase demo_cfg 32 1 ?l) =
       Some [GameStart ''games/zork'', Privmsg ''Loading game: zork'']"
    by code_simp+
  have k: "map fst (bucket_apply ''east'' (insert ''ed'') (votes ?t)) = [''south'', ''north'', ''east'']"
    by code_simp
  have tn: "votes ?t \<noteq> []" and ln: "game_votes ?l \<noteq> []" using t(2) l(2) by simp_all
  from tie_goes_to_earliest_bucket [where cfg = demo_cfg and now = 70 and s = ?t and req = 2] t(1) tn
  have 1: "\<exists>pre ch b post. votes ?t = pre @ (ch, b) # post
         \<and> list_all (\<lambda>(k, b'). card b' < card b) pre
         \<and> list_all (\<lambda>(k, b'). card b' \<le> card b) post
         \<and> snd (command_phase demo_cfg 70 2 ?t) =
             (if 2 \<le> int (card b) then [GameSend ch, Privmsg (''> '' @ ch)]
              else [Privmsg ''No majority for command. Votes cleared.''])" by blast
  from tie_goes_to_earliest_bucket [where cfg = demo_cfg and now = 32 and s = ?l and req = 1] l(1) ln
  have 2: "\<exists>pre ch b post. game_votes ?l = pre @ (ch, b) # post
         \<and> list_all (\<lambda>(k, b'). card b' < card b) pre
         \<and> list_all (\<lambda>(k, b'). card b' \<le> card b) post
         \<and> map_option snd (load_phase demo_cfg 32 1 ?l) =
             Some (if 1 \<le> int (card b)
                   then snd (load_game demo_cfg ch ?l) @ [Privmsg (''Loading game: '' @ ch)]
                   else [Privmsg ''No majority to load game. Votes cleared.''])" by blast
  from t l k 1 2 show ?thesis by blast
qed


subsection \<open>Cross-clearing and the start times\<close>

text \<open>
  Claim C2. The behaviour of the code on the run \<open>cross_clear_run\<close> followed by the tick at
  time 72: the load vote is resolved (without a majority: two active participants need two
  votes), the command ballot and the stop voters are emptied, but \<^verbatim>\<open>command_vote_start\<close>
  and \<^verbatim>\<open>stopgame_vote_start\<close> keep their values 40 and 41.
\<close>

theorem load_resolution_leaves_other_timers_set:
  "load_phase demo_cfg 72 2 (run demo_cfg cross_clear_run init_bot) \<noteq> None
   \<and> voter_choices (run demo_cfg cross_clear_run init_bot) = [(''al'', ''north'')]
   \<and> stopgame_voters (run demo_cfg cross_clear_run init_bot) = {''bo''}
   \<and> snd (vote_loop_body demo_cfg 72 72 72 (run demo_cfg cross_clear_run init_bot)) =
       [Privmsg ''No majority to load game. Votes cleared.'']
   \<and> voter_choices (fst (vote_loop_body demo_cfg 72 72 72 (run demo_cfg cross_clear_run init_bot))) = []
   \<and> votes (fst (vote_loop_body demo_cfg 72 72 72 (run demo_cfg cross_clear_run init_bot))) = []
   \<and> stopgame_voters (fst (vote_loop_body demo_cfg 72 72 72 (run demo_cfg cross_clear_run init_bot))) = {}
   \<and> command_vote_start (fst (vote_loop_body demo_cfg 72 72 72 (run demo_cfg cross_clear_run init_bot))) = Some 40
   \<and> stopgame_vote_start (fst (vote_loop_body demo_cfg 72 72 72 (run demo_cfg cross_clear_run init_bot))) = Some 41"
  by code_simp

text \<open>
  Claim C3. The behaviour of the code on the run \<open>stale_timer_run\<close>: after the load
  resolution at time 71 the command ballot has no recorded choice, yet its start time is
  still 40. The next command vote, at time 100, is the first after the clear and does not
  set the start time; the tick at time 101 finds the timer due and sends the command one
  second after the vote.
\<close>

theorem command_timer_survives_cross_clear:
  "voter_choices (run demo_cfg stale_timer_run init_bot) = []
   \<and> command_vote_start (run demo_cfg stale_timer_run init_bot) = Some 40
   \<and> command_vote_start (run demo_cfg
        (stale_timer_run @ [Pubmsg demo_games 100 100 ''al'' ''!vote south'']) init_bot) = Some 40
   \<and> snd (vote_loop_body demo_cfg 101 101 101 (run demo_cfg
        (stale_timer_run @ [Pubmsg demo_games 100 100 ''al'' ''!vote south'']) init_bot)) =
       [GameSend ''south'', Privmsg ''> south'']"
  by code_simp

text \<open>
  Claim C5. The behaviour of the code on the run \<open>stopped_run\<close> followed by the tick at
  time 72: no game is loaded, neither the load nor the stop ballot is resolved, the tick
  empties the command ballot, and \<^verbatim>\<open>command_vote_start\<close> keeps its value 40.
\<close>

theorem idle_tick_leaves_command_timer_set:
  "game (run demo_cfg stopped_run init_bot) = None
   \<and> load_phase demo_cfg 72 1 (run demo_cfg stopped_run init_bot) = None
   \<and> stop_phase demo_cfg 72 1 (run demo_cfg stopped_run init_bot) = None
   \<and> command_vote_start (run demo_cfg stopped_run init_bot) = Some 40
   \<and> voter_choices (fst (vote_loop_body demo_cfg 72 72 72 (run demo_cfg stopped_run init_bot))) = []
   \<and> votes (fst (vote_loop_body demo_cfg 72 72 72 (run demo_cfg stopped_run init_bot))) = []
   \<and> command_vote_start (fst (vote_loop_body demo_cfg 72 72 72 (run demo_cfg stopped_run init_bot))) = Some 40"
  by code_simp

subsection \<open>One bucket per voter\<close>

text \<open>
  Claim C6. In every state \<open>s\<close> that a run reaches from the initial state, the command
  ballot and the load ballot are well formed: each recorded choice has its voter in that
  choice's bucket, and every member of a bucket has that bucket as recorded choice, so a
  voter is in exactly one bucket. After a command vote (a game is loaded, the command is
  not empty) or a load vote (the game is listed) by \<open>user\<close> in such a state, the recorded
  choice of \<open>user\<close> is the new one and \<open>user\<close> is a member of a bucket if and only if it is
  the new choice's bucket: the vote has left the old bucket.
\<close>

theorem voter_in_exactly_one_bucket:
  "let s = run cfg inputs init_bot;
       s' = fst (on_pubmsg cfg games now t2 user raw s);
       cmd = strip (drop 5 (strip raw));
       g = strip (drop 6 (strip raw))
   in ballot_inv (voter_choices s) (votes s) \<and> ballot_inv (game_voter_choices s) (game_votes s)
      \<and> (startswith (lower (strip raw)) ''!vote'' \<and> cmd \<noteq> [] \<and> game s \<noteq> None \<longrightarrow>
           map_of (voter_choices s') user = Some cmd
           \<and> (\<forall>k b. map_of (votes s') k = Some b \<longrightarrow> (user \<in> b \<longleftrightarrow> k = cmd)))
      \<and> (startswith (lower (strip raw)) ''!load '' \<and> g \<in> set games \<longrightarrow>
           map_of (game_voter_choices s') user = Some g
           \<and> (\<forall>k b. map_of (game_votes s') k = Some b \<longrightarrow> (user \<in> b \<longleftrightarrow> k = g)))"
proof -
  define s where "s = run cfg inputs init_bot"
  define s' where "s' = fst (on_pubmsg cfg games now t2 user raw s)"
  have ok: "ballots_ok s" unfolding s_def using init_ok by (rule run_ok)
  then have "ballots_ok s'" unfolding s'_def by (rule on_pubmsg_ok)
  then have c: "ballot_inv (voter_choices s') (votes s')"
    and l: "ballot_inv (game_voter_choices s') (game_votes s')"
    by (simp_all add: ballots_ok_def)
  have one: "\<forall>k b. map_of tally k = Some b \<longrightarrow> (u \<in> b \<longleftrightarrow> k = ch)"
    if "ballot_inv choices tally" "map_of choices u = Some ch"
    for choices tally u ch
    using that unfolding ballot_inv_def by (metis option.inject)
  have vote: "map_of (voter_choices s') user = Some (strip (drop 5 (strip raw)))"
    if "startswith (lower (strip raw)) ''!vote''" "strip (drop 5 (strip raw)) \<noteq> []" "game s \<noteq> None"
    using that vote_prefix [OF that(1)] unfolding s'_def
    by (simp add: on_pubmsg_def Let_def handle_vote_state AList.update_conv')
  have load: "map_of (game_voter_choices s') user = Some (strip (drop 6 (strip raw)))"
    if "startswith (lower (strip raw)) ''!load ''" "strip (drop 6 (strip raw)) \<in> set games"
    using that load_prefix [OF that(1)] unfolding s'_def
    by (simp add: on_pubmsg_def Let_def handle_load_state AList.update_conv')
  show ?thesis
    unfolding Let_def s_def [symmetric] s'_def [symmetric]
    using ok vote load one [OF c] one [OF l] by (simp add: ballots_ok_def)
qed

theorem voter_in_exactly_one_bucket_witness:
  "startswith (lower (strip ''!vote south'')) ''!vote''
   \<and> strip (drop 5 (strip ''!vote south'')) = ''south''
   \<and> game (run demo_cfg revote_run init_bot) \<noteq> None
   \<and> map_of (voter_choices (run demo_cfg revote_run init_bot)) ''al'' = Some ''north''
   \<and> map_of (voter_choices (fst (on_pubmsg demo_cfg demo_games 50 50 ''al'' ''!vote south''
        (run demo_cfg revote_run init_bot)))) ''al'' = Some ''south''
   \<and> votes (fst (on_pubmsg demo_cfg demo_games 50 50 ''al'' ''!vote south''
        (run demo_cfg revote_run init_bot))) = [(''north'', {}), (''south'', {''al''})]
   \<and> startswith (lower (strip ''!load advent'')) ''!load ''
   \<and> strip (drop 6 (strip ''!load advent'')) = ''advent''
   \<and> map_of (game_voter_choices (run demo_cfg load_pending init_bot)) ''al'' = Some ''zork''
   \<and> map_of (game_voter_choices (fst (on_pubmsg demo_cfg demo_games 5 5 ''al'' ''!load advent''
        (run demo_cfg load_pending init_bot)))) ''al'' = Some ''advent''
   \<and> game_votes (fst (on_pubmsg demo_cfg demo_games 5 5 ''al'' ''!load advent''
        (run demo_cfg load_pending init_bot))) = [(''zork'', {}), (''advent'', {''al''})]"
proof -
  have v: "startswith (lower (strip ''!vote south'')) ''!vote''"
    "strip (drop 5 (strip ''!vote south'')) = ''south''"
    "game (run demo_cfg revote_run init_bot) \<noteq> None"
    "map_of (voter_choices (run demo_cfg revote_run init_bot)) ''al'' = Some ''north''"
    "votes (fst (on_pubmsg demo_cfg demo_games 50 50 ''al'' ''!vote south''
        (run demo_cfg revote_run init_bot))) = [(''north'', {}), (''south'', {''al''})]"
    by code_simp+
  have l: "startswith (lower (strip ''!load advent'')) ''!load ''"
    "strip (drop 6 (strip ''!load advent'')) = ''advent''"
    "''advent'' \<in> set demo_games"
    "map_of (game_voter_choices (run demo_cfg load_pending init_bot)) ''al'' = Some ''zork''"
    "game_votes (fst (on_pubmsg demo_cfg demo_games 5 5 ''al'' ''!load advent''
        (run demo_cfg load_pending init_bot))) = [(''zork'', {}), (''advent'', {''al''})]"
    by code_simp+
  from voter_in_exactly_one_bucket [where cfg = demo_cfg and inputs = revote_run
      and games = demo_games and now = 50 and ?t2.0 = 50 and user = "''al''" and raw = "''!vote south''"]
    v(1,2,3)
  have 1: "map_of (voter_choices (fst (on_pubmsg demo_cfg demo_games 50 50 ''al'' ''!vote south''
        (run demo_cfg revote_run init_bot)))) ''al'' = Some ''south''"
    by (simp add: Let_def)
  from voter_in_exactly_one_bucket [where cfg = demo_cfg and inputs = load_pending
      and games = demo_games and now = 5 and ?t2.0 = 5 and user = "''al''" and raw = "''!load advent''"]
    l(1,2,3)
  have 2: "map_of (game_voter_choices (fst (on_pubmsg demo_cfg demo_games 5 5 ''al'' ''!load advent''
        (run demo_cfg load_pending init_bot)))) ''al'' = Some ''advent''"
    by (simp add: Let_def)
  from v l 1 2 show ?thesis by blast
qed

subsection \<open>The replay buffer\<close>

text \<open>
  Claim C9. With a capacity \<open>BUFFERLENGTH \<ge> 0\<close>: appending the lines \<open>ls\<close> one by one to
  the empty buffer gives a buffer no longer than the capacity, equal to \<open>ls\<close> without its
  first \<open>length ls - BUFFERLENGTH\<close> lines, that is the most recent lines in their order;
  when more lines than the capacity were appended the buffer holds exactly
  \<open>BUFFERLENGTH\<close> lines. The relay appends each non-empty line in this way, and in every
  state that a run reaches from the initial state the buffer is no longer than the
  capacity.
\<close>

theorem replay_buffer_keeps_last_lines:
  assumes "0 \<le> BUFFERLENGTH cfg"
  shows "int (length (fold (buffer_append cfg) ls [])) \<le> BUFFERLENGTH cfg
       \<and> fold (buffer_append cfg) ls [] = drop (length ls - nat (BUFFERLENGTH cfg)) ls
       \<and> (BUFFERLENGTH cfg < int (length ls) \<longrightarrow>
            int (length (fold (buffer_append cfg) ls [])) = BUFFERLENGTH cfg)
       \<and> replay_buffer (fst (snd (relay_line cfg raw loc s))) =
           (if rstrip_crlf raw \<noteq> [] then buffer_append cfg (rstrip_crlf raw) (replay_buffer s)
            else replay_buffer s)
       \<and> int (length (replay_buffer (run cfg inputs init_bot))) \<le> BUFFERLENGTH cfg"
proof -
  have "fold (buffer_append cfg) ls [] = drop (length ls - nat (BUFFERLENGTH cfg)) ls"
    using fold_buffer_append [OF assms, of "[]" ls] assms by simp
  moreover have "int (length (replay_buffer (run cfg inputs init_bot))) \<le> BUFFERLENGTH cfg"
    using assms by (intro run_buffer_length) (simp add: init_bot_def)
  ultimately show ?thesis using assms by (auto simp: relay_line_buffer)
qed

theorem replay_buffer_keeps_last_lines_witness:
  "0 \<le> BUFFERLENGTH demo_cfg
   \<and> BUFFERLENGTH demo_cfg < int (length [''L1'', ''L2'', ''L3'', ''L4'', ''L5'', ''L6'', ''L7''])
   \<and> fold (buffer_append demo_cfg) [''L1'', ''L2'', ''L3'', ''L4'', ''L5'', ''L6'', ''L7''] [] =
       [''L3'', ''L4'', ''L5'', ''L6'', ''L7'']
   \<and> int (length (fold (buffer_append demo_cfg)
        [''L1'', ''L2'', ''L3'', ''L4'', ''L5'', ''L6'', ''L7''] [])) = BUFFERLENGTH demo_cfg
   \<and> int (length (replay_buffer (run demo_cfg seven_lines init_bot))) \<le> BUFFERLENGTH demo_cfg"
proof -
  have h: "0 \<le> BUFFERLENGTH demo_cfg"
    "BUFFERLENGTH demo_cfg < int (length [''L1'', ''L2'', ''L3'', ''L4'', ''L5'', ''L6'', ''L7''])"
    "drop (length [''L1'', ''L2'', ''L3'', ''L4'', ''L5'', ''L6'', ''L7''] - nat (BUFFERLENGTH demo_cfg))
       [''L1'', ''L2'', ''L3'', ''L4'', ''L5'', ''L6'', ''L7''] = [''L3'', ''L4'', ''L5'', ''L6'', ''L7'']"
    by (simp_all add: demo_cfg_def)
  from replay_buffer_keeps_last_lines [OF h(1), where inputs = seven_lines
      and ls = "[''L1'', ''L2'', ''L3'', ''L4'', ''L5'', ''L6'', ''L7'']"] h
  show ?thesis by (simp add: demo_cfg_def)
qed

end
